theory Spec2Isabelle
  imports Main
begin

section \<open>Python values and exceptions\<close>

text \<open>
  The module \<^verbatim>\<open>aimakerspace/text_utils.py\<close> raises \<^verbatim>\<open>ValueError\<close> with a message and
  fails an \<^verbatim>\<open>assert\<close> (an \<^verbatim>\<open>AssertionError\<close> with a message). Every other exception
  comes out of a library or the operating system (\<^verbatim>\<open>open\<close>, \<^verbatim>\<open>requests\<close>, the transcript
  service); of those the code only ever uses the text \<^verbatim>\<open>str(e)\<close>, so they are one
  constructor carrying that text. A function that can raise returns \<open>py_error + 'a\<close>.
\<close>

datatype py_error =
    ValueError string
  | AssertionError string
  | OtherException string

fun exc_str :: "py_error \<Rightarrow> string" where
  "exc_str (ValueError m) = m"
| "exc_str (AssertionError m) = m"
| "exc_str (OtherException m) = m"

text \<open>
  \<^verbatim>\<open>s[a:b]\<close> on a sequence of length \<open>n\<close>: a negative bound counts from the end, and
  both bounds are clipped into \<open>0..n\<close>; an empty or inverted range is the empty sequence.
\<close>

definition slice_bound :: "int \<Rightarrow> int \<Rightarrow> int" where
  "slice_bound n k = (if k < 0 then max 0 (k + n) else min k n)"

definition py_slice :: "'a list \<Rightarrow> int \<Rightarrow> int \<Rightarrow> 'a list" where
  "py_slice xs a b =
     (let n = int (length xs); lo = slice_bound n a; hi = slice_bound n b
      in take (nat (hi - lo)) (drop (nat lo) xs))"

text \<open>
  \<^verbatim>\<open>range(start, stop, step)\<close>, as the list of the values it yields. A zero step raises
  \<^verbatim>\<open>ValueError\<close>; a positive step counts up while the value is below \<open>stop\<close>, a
  negative one counts down while it is above.
\<close>

function range_up :: "int \<Rightarrow> int \<Rightarrow> int \<Rightarrow> int list" where
  "range_up i stop step =
     (if 0 < step \<and> i < stop then i # range_up (i + step) stop step else [])"
  by pat_completeness auto
termination
  by (relation "measure (\<lambda>(i, stop, step). nat (stop - i))") auto

function range_down :: "int \<Rightarrow> int \<Rightarrow> int \<Rightarrow> int list" where
  "range_down i stop step =
     (if step < 0 \<and> stop < i then i # range_down (i + step) stop step else [])"
  by pat_completeness auto
termination
  by (relation "measure (\<lambda>(i, stop, step). nat (i - stop))") auto

definition py_range :: "int \<Rightarrow> int \<Rightarrow> int \<Rightarrow> py_error + int list" where
  "py_range start stop step =
     (if step = 0 then Inl (ValueError ''range() arg 3 must not be zero'')
      else if 0 < step then Inr (range_up start stop step)
      else Inr (range_down start stop step))"

text \<open>
  \<^verbatim>\<open>s.endswith(suffix)\<close> and \<^verbatim>\<open>sep.join(parts)\<close> on strings.
\<close>

definition endswith :: "string \<Rightarrow> string \<Rightarrow> bool" where
  "endswith s suffix =
     (length suffix \<le> length s \<and> drop (length s - length suffix) s = suffix)"

fun py_join :: "string \<Rightarrow> string list \<Rightarrow> string" where
  "py_join sep [] = []"
| "py_join sep [x] = x"
| "py_join sep (x # y # ys) = x @ sep @ py_join sep (y # ys)"

section \<open>CharacterTextSplitter\<close>

record CharacterTextSplitter =
  chunk_size :: int
  chunk_overlap :: int

text \<open>
  \<^verbatim>\<open>__init__\<close>: the assertion \<^verbatim>\<open>chunk_size > chunk_overlap\<close> comes first; only when it
  holds are the two attributes stored.
\<close>

definition CharacterTextSplitter_init :: "int \<Rightarrow> int \<Rightarrow> py_error + CharacterTextSplitter" where
  "CharacterTextSplitter_init csize coverlap =
     (if csize > coverlap
      then Inr \<lparr>chunk_size = csize, chunk_overlap = coverlap\<rparr>
      else Inl (AssertionError ''Chunk size must be greater than chunk overlap''))"

text \<open>
  The body of the \<^verbatim>\<open>for\<close> loop of \<^verbatim>\<open>split\<close>, run over the offsets that \<^verbatim>\<open>range\<close>
  yields: each turn appends \<^verbatim>\<open>text[i : i + self.chunk_size]\<close> to \<^verbatim>\<open>chunks\<close>.
\<close>

fun split_loop :: "CharacterTextSplitter \<Rightarrow> string \<Rightarrow> int list \<Rightarrow> string list \<Rightarrow> string list" where
  "split_loop self txt [] chunks = chunks"
| "split_loop self txt (i # is) chunks =
     split_loop self txt is (chunks @ [py_slice txt i (i + chunk_size self)])"

definition split :: "CharacterTextSplitter \<Rightarrow> string \<Rightarrow> py_error + string list" where
  "split self txt =
     (case py_range 0 (int (length txt)) (chunk_size self - chunk_overlap self) of
        Inl e \<Rightarrow> Inl e
      | Inr offsets \<Rightarrow> Inr (split_loop self txt offsets []))"

text \<open>
  \<^verbatim>\<open>split_texts\<close>: \<^verbatim>\<open>chunks.extend(self.split(text))\<close> for each text in turn; the first
  \<^verbatim>\<open>split\<close> that raises ends the loop.
\<close>

fun split_texts_loop :: "CharacterTextSplitter \<Rightarrow> string list \<Rightarrow> string list \<Rightarrow> py_error + string list" where
  "split_texts_loop self [] chunks = Inr chunks"
| "split_texts_loop self (txt # txts) chunks =
     (case split self txt of
        Inl e \<Rightarrow> Inl e
      | Inr cs \<Rightarrow> split_texts_loop self txts (chunks @ cs))"

definition split_texts :: "CharacterTextSplitter \<Rightarrow> string list \<Rightarrow> py_error + string list" where
  "split_texts self txts = split_texts_loop self txts []"

text \<open>
  How many offsets \<^verbatim>\<open>range(0, len(text), stride)\<close> yields for a positive stride: the
  length of the text divided by the stride, rounded up.
\<close>

definition n_chunks :: "CharacterTextSplitter \<Rightarrow> string \<Rightarrow> nat" where
  "n_chunks c txt =
     nat ((int (length txt) + (chunk_size c - chunk_overlap c) - 1) div (chunk_size c - chunk_overlap c))"

section \<open>TextFileLoader\<close>

text \<open>
  The file system is outside the module: the loader only calls \<^verbatim>\<open>os.path.isdir\<close>,
  \<^verbatim>\<open>os.path.isfile\<close>, \<^verbatim>\<open>os.walk\<close> and \<^verbatim>\<open>open(...).read()\<close>. Each is a field of the
  record below, giving what the call returns. \<open>os_walk\<close> is the list of the triples
  \<open>(root, dirs, files)\<close> in the order \<^verbatim>\<open>os.walk\<close> yields them (the top directory and,
  recursively, every directory below it); \<open>open_read path enc\<close> is the text that
  \<^verbatim>\<open>open(path, "r", encoding=enc).read()\<close> returns, or the exception it raises (a missing
  file, a permission, bytes that do not decode).
\<close>

record filesystem =
  os_path_isdir :: "string \<Rightarrow> bool"
  os_path_isfile :: "string \<Rightarrow> bool"
  os_walk :: "string \<Rightarrow> (string \<times> string list \<times> string list) list"
  open_read :: "string \<Rightarrow> string \<Rightarrow> py_error + string"

text \<open>The calls a load makes to the file system, in the order it makes them.\<close>

datatype fs_event =
    IsDir string
  | IsFile string
  | Walk string
  | OpenRead string

text \<open>
  \<^verbatim>\<open>os.path.join(a, b)\<close> with two arguments, as \<^verbatim>\<open>posixpath\<close> computes it: an absolute
  \<open>b\<close> replaces \<open>a\<close>; otherwise the two are joined by one separator unless \<open>a\<close> is empty
  or already ends with it.
\<close>

definition os_path_join :: "string \<Rightarrow> string \<Rightarrow> string" where
  "os_path_join a b =
     (if take 1 b = ''/'' then b
      else if a = [] \<or> endswith a ''/'' then a @ b
      else a @ ''/'' @ b)"

text \<open>
  Both loader classes keep the attribute \<^verbatim>\<open>documents\<close>, the list their loads append
  to; it is the common part of the two records of attributes.
\<close>

record Loader =
  documents :: "string list"

record TextFileLoader = Loader +
  path :: string
  encoding :: string

definition TextFileLoader_init :: "string \<Rightarrow> string \<Rightarrow> TextFileLoader" where
  "TextFileLoader_init p enc = \<lparr>documents = [], path = p, encoding = enc\<rparr>"

text \<open>
  A method of the loader takes the file system, the loader's attributes and the calls
  made so far, and returns its result (or the exception it raised) with the attributes
  and the calls as it leaves them; an exception does not undo what was appended before.
\<close>

type_synonym 'a loading = "(py_error + 'a) \<times> TextFileLoader \<times> fs_event list"

definition load_file :: "filesystem \<Rightarrow> TextFileLoader \<Rightarrow> fs_event list \<Rightarrow> unit loading" where
  "load_file fs self calls =
     (case open_read fs (path self) (encoding self) of
        Inl e \<Rightarrow> (Inl e, self, calls @ [OpenRead (path self)])
      | Inr content \<Rightarrow>
          (Inr (), self\<lparr>documents := documents self @ [content]\<rparr>,
           calls @ [OpenRead (path self)]))"

text \<open>The inner loop of \<^verbatim>\<open>load_directory\<close>: \<^verbatim>\<open>for file in files\<close>.\<close>

fun load_directory_files ::
  "filesystem \<Rightarrow> string \<Rightarrow> string list \<Rightarrow> TextFileLoader \<Rightarrow> fs_event list \<Rightarrow> unit loading" where
  "load_directory_files fs root [] self calls = (Inr (), self, calls)"
| "load_directory_files fs root (file # files) self calls =
     (if endswith file ''.txt''
      then (case open_read fs (os_path_join root file) (encoding self) of
              Inl e \<Rightarrow> (Inl e, self, calls @ [OpenRead (os_path_join root file)])
            | Inr content \<Rightarrow>
                load_directory_files fs root files
                  (self\<lparr>documents := documents self @ [content]\<rparr>)
                  (calls @ [OpenRead (os_path_join root file)]))
      else load_directory_files fs root files self calls)"

text \<open>The outer loop: \<^verbatim>\<open>for root, _, files in os.walk(self.path)\<close>.\<close>

fun load_directory_walk ::
  "filesystem \<Rightarrow> (string \<times> string list \<times> string list) list \<Rightarrow> TextFileLoader \<Rightarrow>
     fs_event list \<Rightarrow> unit loading" where
  "load_directory_walk fs [] self calls = (Inr (), self, calls)"
| "load_directory_walk fs ((root, dirs, files) # rest) self calls =
     (case load_directory_files fs root files self calls of
        (Inl e, self', calls') \<Rightarrow> (Inl e, self', calls')
      | (Inr u, self', calls') \<Rightarrow> load_directory_walk fs rest self' calls')"

definition load_directory :: "filesystem \<Rightarrow> TextFileLoader \<Rightarrow> fs_event list \<Rightarrow> unit loading" where
  "load_directory fs self calls =
     load_directory_walk fs (os_walk fs (path self)) self (calls @ [Walk (path self)])"

definition TextFileLoader_load :: "filesystem \<Rightarrow> TextFileLoader \<Rightarrow> fs_event list \<Rightarrow> unit loading" where
  "TextFileLoader_load fs self calls =
     (if os_path_isdir fs (path self)
      then load_directory fs self (calls @ [IsDir (path self)])
      else if os_path_isfile fs (path self) \<and> endswith (path self) ''.txt''
      then load_file fs self (calls @ [IsDir (path self), IsFile (path self)])
      else (Inl (ValueError ''Provided path is neither a valid directory nor a .txt file.''),
            self, calls @ [IsDir (path self), IsFile (path self)]))"

definition TextFileLoader_load_documents ::
  "filesystem \<Rightarrow> TextFileLoader \<Rightarrow> fs_event list \<Rightarrow> (string list) loading" where
  "TextFileLoader_load_documents fs self calls =
     (case TextFileLoader_load fs self calls of
        (Inl e, self', calls') \<Rightarrow> (Inl e, self', calls')
      | (Inr u, self', calls') \<Rightarrow> (Inr (documents self'), self', calls'))"

text \<open>
  The paths a directory load opens, in the order it opens them: for every triple of the
  walk, the files of that directory whose names end in \<^verbatim>\<open>.txt\<close>, joined to its root.
\<close>

definition txt_paths :: "(string \<times> string list \<times> string list) list \<Rightarrow> string list" where
  "txt_paths triples =
     concat (map (\<lambda>(root, dirs, files).
        map (os_path_join root) (filter (\<lambda>file. endswith file ''.txt'') files)) triples)"

text \<open>
  The paths a load that succeeds reads, in the order it reads them: for a directory the
  paths above, for anything else (a \<^verbatim>\<open>.txt\<close> file, since the load succeeded) the path
  itself.
\<close>

definition loaded_paths :: "filesystem \<Rightarrow> TextFileLoader \<Rightarrow> string list" where
  "loaded_paths fs self =
     (if os_path_isdir fs (path self) then txt_paths (os_walk fs (path self)) else [path self])"

text \<open>
  A small file system for the examples: the directory \<^verbatim>\<open>data\<close> holds \<^verbatim>\<open>a.txt\<close>,
  \<^verbatim>\<open>notes.md\<close> and the directory \<^verbatim>\<open>sub\<close>, which holds \<^verbatim>\<open>b.txt\<close> and \<^verbatim>\<open>c.txt\<close>.
\<close>

definition example_files :: "(string \<times> string) list" where
  "example_files =
     [(''data/a.txt'', ''alpha''), (''data/notes.md'', ''# notes''),
      (''data/sub/b.txt'', ''beta''), (''data/sub/c.txt'', ''gamma'')]"

definition example_fs :: filesystem where
  "example_fs =
     \<lparr>os_path_isdir = (\<lambda>p. p = ''data'' \<or> p = ''data/sub''),
      os_path_isfile = (\<lambda>p. p \<in> set (map fst example_files)),
      os_walk = (\<lambda>p.
        if p = ''data''
        then [(''data'', [''sub''], [''a.txt'', ''notes.md'']),
              (''data/sub'', [], [''b.txt'', ''c.txt''])]
        else if p = ''data/sub'' then [(''data/sub'', [], [''b.txt'', ''c.txt''])]
        else []),
      open_read = (\<lambda>p enc.
        case map_of example_files p of
          Some content \<Rightarrow> Inr content
        | None \<Rightarrow> Inl (OtherException ''No such file or directory''))\<rparr>"

definition example_content :: "string \<Rightarrow> string" where
  "example_content p = (case map_of example_files p of Some content \<Rightarrow> content | None \<Rightarrow> [])"

section \<open>YouTubeLoader\<close>

subsection \<open>Extracting the video identifier\<close>

text \<open>
  The three regular expressions of \<^verbatim>\<open>_extract_video_id\<close> have one shape: a choice of
  literal prefixes (the escapes \<^verbatim>\<open>\.\<close>, \<^verbatim>\<open>\/\<close> and \<^verbatim>\<open>\?\<close> stand for the plain characters),
  followed by the one capturing group \<^verbatim>\<open>([^&\n?#]+)\<close>. A pattern is the list of its
  prefixes, in the order of the alternation:
  \<^verbatim>\<open>(?:youtube\.com\/watch\?v=|youtu\.be\/|youtube\.com\/embed\/)([^&\n?#]+)\<close>,
  \<^verbatim>\<open>youtube\.com\/v\/([^&\n?#]+)\<close> and \<^verbatim>\<open>youtube\.com\/embed\/([^&\n?#]+)\<close>.
\<close>

type_synonym pattern = "string list"

definition patterns :: "pattern list" where
  "patterns =
     [[''youtube.com/watch?v='', ''youtu.be/'', ''youtube.com/embed/''],
      [''youtube.com/v/''],
      [''youtube.com/embed/'']]"

text \<open>The character class \<^verbatim>\<open>[^&\n?#]\<close>.\<close>

definition id_char :: "char \<Rightarrow> bool" where
  "id_char ch = (ch \<noteq> CHR ''&'' \<and> ch \<noteq> CHR 0x0A \<and> ch \<noteq> CHR ''?'' \<and> ch \<noteq> CHR ''#'')"

definition startswith :: "string \<Rightarrow> string \<Rightarrow> bool" where
  "startswith s prefix = (take (length prefix) s = prefix)"

text \<open>
  A match that starts at the head of \<open>s\<close>: the alternatives are tried in order; one
  matches when its prefix is there and at least one character of the class follows. The
  group is greedy and nothing follows it in the pattern, so it is the longest run of
  class characters after the prefix. The result is \<^verbatim>\<open>match.group(1)\<close>.
\<close>

fun match_here :: "pattern \<Rightarrow> string \<Rightarrow> string option" where
  "match_here [] s = None"
| "match_here (prefix # alternatives) s =
     (if startswith s prefix \<and> takeWhile id_char (drop (length prefix) s) \<noteq> []
      then Some (takeWhile id_char (drop (length prefix) s))
      else match_here alternatives s)"

text \<open>\<^verbatim>\<open>re.search\<close>: the match at the leftmost position of the string that has one.\<close>

fun re_search :: "pattern \<Rightarrow> string \<Rightarrow> string option" where
  "re_search p [] = match_here p []"
| "re_search p (ch # s) =
     (case match_here p (ch # s) of
        Some g \<Rightarrow> Some g
      | None \<Rightarrow> re_search p s)"

text \<open>The loop \<^verbatim>\<open>for pattern in patterns\<close>, and the \<^verbatim>\<open>raise\<close> after it.\<close>

fun extract_loop :: "pattern list \<Rightarrow> string \<Rightarrow> py_error + string" where
  "extract_loop [] u = Inl (ValueError (''Could not extract video ID from URL: '' @ u))"
| "extract_loop (p # ps) u =
     (case re_search p u of
        Some g \<Rightarrow> Inr g
      | None \<Rightarrow> extract_loop ps u)"

definition extract_video_id :: "string \<Rightarrow> py_error + string" where
  "extract_video_id u = extract_loop patterns u"

subsection \<open>The services outside the module\<close>

text \<open>
  A value inside the metadata dictionary: a string, or any other JSON value. The code
  only ever formats such a value into an f-string, so a value that is not a string is
  kept as the text that \<^verbatim>\<open>str\<close> gives for it.
\<close>

datatype py_value = PyStr string | PyOther string

fun py_str :: "py_value \<Rightarrow> string" where
  "py_str (PyStr s) = s"
| "py_str (PyOther shown) = shown"

text \<open>
  What \<^verbatim>\<open>response.json()\<close> returns: a dictionary, or a value of another type (a list, a
  string, a number, \<^verbatim>\<open>None\<close>), of which only the name of the type matters: calling
  \<^verbatim>\<open>.get\<close> on it raises \<^verbatim>\<open>AttributeError\<close>.
\<close>

datatype py_json = JDict "string \<rightharpoonup> py_value" | JNotDict string

definition dict_get :: "py_json \<Rightarrow> string \<Rightarrow> py_value \<Rightarrow> py_error + py_value" where
  "dict_get d key dflt =
     (case d of
        JDict m \<Rightarrow> (case m key of Some v \<Rightarrow> Inr v | None \<Rightarrow> Inr dflt)
      | JNotDict type_name \<Rightarrow>
          Inl (OtherException ([CHR 0x27] @ type_name @ [CHR 0x27] @ '' object has no attribute ''
                 @ [CHR 0x27] @ ''get'' @ [CHR 0x27])))"

text \<open>
  The response of \<^verbatim>\<open>requests.get\<close>: what \<^verbatim>\<open>raise_for_status()\<close> raises, if anything, and
  what \<^verbatim>\<open>json()\<close> returns or raises.
\<close>

record response =
  raise_for_status :: "py_error option"
  json :: "py_error + py_json"

datatype FetchedTranscriptSnippet = FetchedTranscriptSnippet (snippet_text: string)

record FetchedTranscript =
  snippets :: "FetchedTranscriptSnippet list"

text \<open>
  The network: \<open>requests_get u\<close> is what \<^verbatim>\<open>requests.get(u, timeout=10)\<close> returns or raises;
  \<open>api_fetch video_id languages\<close> is what \<^verbatim>\<open>YouTubeTranscriptApi().fetch\<close> returns or
  raises, with \<open>Some [''en'']\<close> for the call with \<^verbatim>\<open>languages=['en']\<close> and \<open>None\<close> for
  the call that passes no languages.
\<close>

record web =
  requests_get :: "string \<Rightarrow> py_error + response"
  api_fetch :: "string \<Rightarrow> string list option \<Rightarrow> py_error + FetchedTranscript"

text \<open>The requests a load sends, in the order it sends them.\<close>

datatype net_event =
    TranscriptFetch string "string list option"
  | MetadataGet string

subsection \<open>The loader\<close>

record YouTubeLoader = Loader +
  url :: string
  include_metadata :: bool
  metadata :: py_json
  video_id :: string

text \<open>
  \<^verbatim>\<open>__init__\<close> stores the attributes and extracts the identifier; when the extraction
  raises, no loader comes out of the constructor.
\<close>

definition YouTubeLoader_init :: "string \<Rightarrow> bool \<Rightarrow> py_error + YouTubeLoader" where
  "YouTubeLoader_init u with_metadata =
     (case extract_video_id u of
        Inl e \<Rightarrow> Inl e
      | Inr vid \<Rightarrow>
          Inr \<lparr>documents = [], url = u, include_metadata = with_metadata,
               metadata = JDict Map.empty, video_id = vid\<rparr>)"

text \<open>
  The dictionary the \<^verbatim>\<open>except\<close> branch of \<^verbatim>\<open>_get_video_metadata\<close> returns.
\<close>

definition placeholder_metadata :: py_json where
  "placeholder_metadata =
     JDict [''title'' \<mapsto> PyStr ''Unknown'', ''author_name'' \<mapsto> PyStr ''Unknown'',
            ''provider_name'' \<mapsto> PyStr ''YouTube'']"

definition oembed_url :: "YouTubeLoader \<Rightarrow> string" where
  "oembed_url self = ''https://www.youtube.com/oembed?url='' @ url self @ ''&format=json''"

text \<open>
  \<^verbatim>\<open>_get_video_metadata\<close>: one request; whatever is raised by the request, by
  \<^verbatim>\<open>raise_for_status\<close> or by \<^verbatim>\<open>json\<close> is caught and the placeholder returned. (The
  warning it prints then is not part of the model.)
\<close>

definition get_video_metadata ::
  "web \<Rightarrow> YouTubeLoader \<Rightarrow> net_event list \<Rightarrow> py_json \<times> net_event list" where
  "get_video_metadata w self sent =
     (case requests_get w (oembed_url self) of
        Inl e \<Rightarrow> (placeholder_metadata, sent @ [MetadataGet (oembed_url self)])
      | Inr resp \<Rightarrow>
          (case raise_for_status resp of
             Some e \<Rightarrow> (placeholder_metadata, sent @ [MetadataGet (oembed_url self)])
           | None \<Rightarrow>
               (case json resp of
                  Inl e \<Rightarrow> (placeholder_metadata, sent @ [MetadataGet (oembed_url self)])
                | Inr d \<Rightarrow> (d, sent @ [MetadataGet (oembed_url self)]))))"

text \<open>
  \<^verbatim>\<open>_get_transcript\<close>: the fetch with \<^verbatim>\<open>languages=['en']\<close>; if it raises, the fetch
  without languages; the snippets' texts joined by one space. What the second fetch
  raises is wrapped into a \<^verbatim>\<open>ValueError\<close> that names the video.
\<close>

definition get_transcript ::
  "web \<Rightarrow> YouTubeLoader \<Rightarrow> net_event list \<Rightarrow> (py_error + string) \<times> net_event list" where
  "get_transcript w self sent =
     (case api_fetch w (video_id self) (Some [''en'']) of
        Inr transcript_data \<Rightarrow>
          (Inr (py_join '' '' (map snippet_text (snippets transcript_data))),
           sent @ [TranscriptFetch (video_id self) (Some [''en''])])
      | Inl first_error \<Rightarrow>
          (case api_fetch w (video_id self) None of
             Inr transcript_data \<Rightarrow>
               (Inr (py_join '' '' (map snippet_text (snippets transcript_data))),
                sent @ [TranscriptFetch (video_id self) (Some [''en'']),
                        TranscriptFetch (video_id self) None])
           | Inl e \<Rightarrow>
               (Inl (ValueError (''Could not retrieve transcript for video '' @ video_id self
                                   @ '': '' @ exc_str e)),
                sent @ [TranscriptFetch (video_id self) (Some [''en'']),
                        TranscriptFetch (video_id self) None])))"

text \<open>The f-string of \<^verbatim>\<open>load\<close>; its lines end in a newline character.\<close>

definition format_document :: "string \<Rightarrow> string \<Rightarrow> string \<Rightarrow> string \<Rightarrow> string \<Rightarrow> string" where
  "format_document title author vid u transcript =
     ''Title: '' @ title @ [CHR 0x0A]
     @ ''Author: '' @ author @ [CHR 0x0A]
     @ ''Video ID: '' @ vid @ [CHR 0x0A]
     @ ''URL: '' @ u @ [CHR 0x0A]
     @ [CHR 0x0A]
     @ ''Transcript:'' @ [CHR 0x0A]
     @ transcript"

text \<open>
  \<^verbatim>\<open>load\<close>: the transcript first, then (if requested) the metadata, stored in
  \<^verbatim>\<open>self.metadata\<close> before the document is formatted; the document is appended last.
  Every exception raised on the way is wrapped into
  \<^verbatim>\<open>ValueError("Failed to load YouTube video: ...")\<close>.
\<close>

definition YouTubeLoader_load ::
  "web \<Rightarrow> YouTubeLoader \<Rightarrow> net_event list \<Rightarrow> (py_error + unit) \<times> YouTubeLoader \<times> net_event list" where
  "YouTubeLoader_load w self sent =
     (case get_transcript w self sent of
        (Inl e, sent1) \<Rightarrow>
          (Inl (ValueError (''Failed to load YouTube video: '' @ exc_str e)), self, sent1)
      | (Inr transcript, sent1) \<Rightarrow>
          if include_metadata self
          then (case get_video_metadata w self sent1 of
                  (d, sent2) \<Rightarrow>
                    (case dict_get d ''title'' (PyStr ''Unknown'') of
                       Inl e \<Rightarrow>
                         (Inl (ValueError (''Failed to load YouTube video: '' @ exc_str e)),
                          self\<lparr>metadata := d\<rparr>, sent2)
                     | Inr title \<Rightarrow>
                         (case dict_get d ''author_name'' (PyStr ''Unknown'') of
                            Inl e \<Rightarrow>
                              (Inl (ValueError (''Failed to load YouTube video: '' @ exc_str e)),
                               self\<lparr>metadata := d\<rparr>, sent2)
                          | Inr author \<Rightarrow>
                              (Inr (),
                               self\<lparr>metadata := d,
                                    documents := documents self
                                      @ [format_document (py_str title) (py_str author)
                                           (video_id self) (url self) transcript]\<rparr>,
                               sent2))))
          else (Inr (), self\<lparr>documents := documents self @ [transcript]\<rparr>, sent1))"

definition YouTubeLoader_load_documents ::
  "web \<Rightarrow> YouTubeLoader \<Rightarrow> net_event list \<Rightarrow>
     (py_error + string list) \<times> YouTubeLoader \<times> net_event list" where
  "YouTubeLoader_load_documents w self sent =
     (case YouTubeLoader_load w self sent of
        (Inl e, self', sent') \<Rightarrow> (Inl e, self', sent')
      | (Inr u, self', sent') \<Rightarrow> (Inr (documents self'), self', sent'))"

text \<open>
  The way a caller loads from a URL, \<^verbatim>\<open>YouTubeLoader(url, include_metadata).load_documents()\<close>:
  the constructor, then the load on the loader it returns.
\<close>

definition load_from_url ::
  "web \<Rightarrow> string \<Rightarrow> bool \<Rightarrow> net_event list \<Rightarrow> (py_error + string list) \<times> net_event list" where
  "load_from_url w u with_metadata sent =
     (case YouTubeLoader_init u with_metadata of
        Inl e \<Rightarrow> (Inl e, sent)
      | Inr self \<Rightarrow>
          (case YouTubeLoader_load_documents w self sent of
             (r, self', sent') \<Rightarrow> (r, sent')))"

text \<open>
  Whether the metadata request fails: the request raises, or the status check raises,
  or the body does not parse.
\<close>

definition metadata_fetch_fails :: "web \<Rightarrow> YouTubeLoader \<Rightarrow> bool" where
  "metadata_fetch_fails w self =
     (case requests_get w (oembed_url self) of
        Inl e \<Rightarrow> True
      | Inr resp \<Rightarrow>
          (case raise_for_status resp of
             Some e \<Rightarrow> True
           | None \<Rightarrow> (case json resp of Inl e \<Rightarrow> True | Inr d \<Rightarrow> False)))"

text \<open>
  Examples: a video with a two-snippet English transcript; a network that answers the
  metadata request, one where that request raises, and one where no transcript can be
  fetched.
\<close>

definition example_url :: string where
  "example_url = ''https://www.youtube.com/watch?v=abc123''"

definition example_loader :: YouTubeLoader where
  "example_loader =
     \<lparr>documents = [], url = example_url, include_metadata = True,
      metadata = JDict Map.empty, video_id = ''abc123''\<rparr>"

definition example_fetch :: "string \<Rightarrow> string list option \<Rightarrow> py_error + FetchedTranscript" where
  "example_fetch vid languages =
     (if vid = ''abc123'' \<and> languages = Some [''en'']
      then Inr \<lparr>snippets = [FetchedTranscriptSnippet ''hello'', FetchedTranscriptSnippet ''world'']\<rparr>
      else Inl (OtherException ''no transcript''))"

definition example_web :: web where
  "example_web =
     \<lparr>requests_get = (\<lambda>u. Inr \<lparr>raise_for_status = None,
          json = Inr (JDict [''title'' \<mapsto> PyStr ''A talk'', ''author_name'' \<mapsto> PyStr ''Ann''])\<rparr>),
      api_fetch = example_fetch\<rparr>"

definition example_web_metadata_down :: web where
  "example_web_metadata_down =
     \<lparr>requests_get = (\<lambda>u. Inl (OtherException ''connection refused'')),
      api_fetch = example_fetch\<rparr>"

definition example_web_no_transcript :: web where
  "example_web_no_transcript =
     \<lparr>requests_get = (\<lambda>u. Inl (OtherException ''connection refused'')),
      api_fetch = (\<lambda>vid languages.
        case languages of
          Some ls \<Rightarrow> Inl (OtherException ''no English transcript'')
        | None \<Rightarrow> Inl (OtherException ''transcripts are disabled''))\<rparr>"

section \<open>Properties of the splitter\<close>

subsection \<open>Offsets and slices\<close>

lemma split_loop_map:
  "split_loop self txt offs chunks =
     chunks @ map (\<lambda>i. py_slice txt i (i + chunk_size self)) offs"
  by (induction offs arbitrary: chunks) simp_all

lemma ceil_shift:
  fixes d step :: int
  assumes "0 < step" "0 < d"
  shows "nat ((d + step - 1) div step) = Suc (nat ((d - step + step - 1) div step))"
proof -
  have "step \<noteq> 0" using assms(1) by simp
  then have "((d - 1) + step) div step = (d - 1) div step + 1"
    by (rule div_add_self2)
  moreover have "d + step - 1 = (d - 1) + step" by simp
  ultimately have "(d + step - 1) div step = (d - 1) div step + 1"
    by (simp only:)
  moreover have "0 \<le> (d - 1) div step" using assms by (simp add: pos_imp_zdiv_nonneg_iff)
  ultimately show ?thesis by simp
qed

lemma ceil_nonpos:
  fixes d step :: int
  assumes "0 < step" "d \<le> 0"
  shows "nat ((d + step - 1) div step) = 0"
proof -
  have "(d + step - 1) div step \<le> (step - 1) div step"
    using assms by (intro zdiv_mono1) simp_all
  also have "(step - 1) div step = 0" using assms(1) by (simp add: div_pos_pos_trivial)
  finally show ?thesis by simp
qed

lemma range_up_map:
  "0 < step \<Longrightarrow>
   range_up i stop step = map (\<lambda>k. i + int k * step) [0..<nat ((stop - i + step - 1) div step)]"
proof (induction i stop step rule: range_up.induct)
  case (1 i stop step)
  show ?case
  proof (cases "i < stop")
    case True
    let ?n = "nat ((stop - (i + step) + step - 1) div step)"
    have "nat ((stop - i + step - 1) div step) = Suc (nat ((stop - i - step + step - 1) div step))"
      using ceil_shift[of step "stop - i"] "1.prems" True by simp
    moreover have "stop - i - step = stop - (i + step)" by simp
    ultimately have n: "nat ((stop - i + step - 1) div step) = Suc ?n" by (simp only:)
    have ih: "range_up (i + step) stop step = map (\<lambda>k. i + step + int k * step) [0..<?n]"
      using "1.IH" "1.prems" True by simp
    have "[0..<Suc ?n] = 0 # map Suc [0..<?n]"
      by (simp only: map_Suc_upt upt_conv_Cons[of 0 "Suc ?n"] zero_less_Suc)
    then have "map (\<lambda>k. i + int k * step) [0..<Suc ?n] = i # map (\<lambda>k. i + step + int k * step) [0..<?n]"
      by (simp add: algebra_simps del: upt_Suc)
    moreover have "range_up i stop step = i # range_up (i + step) stop step"
      using True "1.prems" by simp
    ultimately show ?thesis using ih n by (simp only:)
  next
    case False
    then have "nat ((stop - i + step - 1) div step) = 0"
      using ceil_nonpos[of step "stop - i"] "1.prems" by simp
    with False show ?thesis by simp
  qed
qed

lemma ceil_bounds:
  fixes a step :: int
  assumes "0 < step"
  shows "((a + step - 1) div step) * step \<le> a + step - 1"
    and "a - 1 < ((a + step - 1) div step) * step"
proof -
  let ?b = "a + step - 1"
  have eq: "?b div step * step + ?b mod step = ?b" by (rule div_mult_mod_eq)
  have lo: "0 \<le> ?b mod step" using assms by (rule pos_mod_sign)
  have hi: "?b mod step < step" using assms by (rule pos_mod_bound)
  show "?b div step * step \<le> ?b" using eq lo by linarith
  show "a - 1 < ?b div step * step" using eq hi by linarith
qed

lemma below_ceil_iff:
  fixes a step k :: int
  assumes "0 < step"
  shows "k < (a + step - 1) div step \<longleftrightarrow> k * step < a"
proof
  let ?q = "(a + step - 1) div step"
  assume "k < ?q"
  then have "k + 1 \<le> ?q" by simp
  then have "(k + 1) * step \<le> ?q * step" using assms by (intro mult_right_mono) simp_all
  also have "\<dots> \<le> a + step - 1" using assms by (rule ceil_bounds(1))
  finally show "k * step < a" by (simp add: algebra_simps)
next
  let ?q = "(a + step - 1) div step"
  assume lt: "k * step < a"
  show "k < ?q"
  proof (rule ccontr)
    assume "\<not> k < ?q"
    then have "?q \<le> k" by simp
    then have "?q * step \<le> k * step" using assms by (intro mult_right_mono) simp_all
    moreover have "a - 1 < ?q * step" using assms by (rule ceil_bounds(2))
    ultimately show False using lt by linarith
  qed
qed

text \<open>
  With a start that is not negative and a positive width, the Python slice is the plain
  substring: drop the start, keep at most the width.
\<close>

lemma py_slice_nonneg:
  assumes "0 \<le> i" "0 < n"
  shows "py_slice xs i (i + n) = take (nat n) (drop (nat i) xs)"
  using assms by (auto simp: py_slice_def slice_bound_def Let_def min_def)

lemma split_valid:
  assumes "0 < chunk_size c" "0 \<le> chunk_overlap c" "chunk_overlap c < chunk_size c"
  shows "split c txt =
     Inr (map (\<lambda>k. take (nat (chunk_size c)) (drop (k * nat (chunk_size c - chunk_overlap c)) txt))
            [0..<n_chunks c txt])"
proof -
  let ?s = "chunk_size c - chunk_overlap c"
  have s: "0 < ?s" using assms by simp
  have r: "range_up 0 (int (length txt)) ?s = map (\<lambda>k. int k * ?s) [0..<n_chunks c txt]"
    using range_up_map[OF s, of 0 "int (length txt)"] by (simp add: n_chunks_def)
  have sl: "py_slice txt (int k * ?s) (int k * ?s + chunk_size c) =
        take (nat (chunk_size c)) (drop (k * nat ?s) txt)" for k
  proof -
    have "0 \<le> int k * ?s" using s by simp
    then have "py_slice txt (int k * ?s) (int k * ?s + chunk_size c) =
        take (nat (chunk_size c)) (drop (nat (int k * ?s)) txt)"
      using assms(1) by (rule py_slice_nonneg)
    moreover have "nat (int k * ?s) = k * nat ?s" by (simp add: nat_mult_distrib)
    ultimately show ?thesis by (simp only:)
  qed
  have "split c txt = Inr (map (\<lambda>i. py_slice txt i (i + chunk_size c)) (range_up 0 (int (length txt)) ?s))"
    using s by (simp add: split_def py_range_def split_loop_map)
  also have "map (\<lambda>i. py_slice txt i (i + chunk_size c)) (range_up 0 (int (length txt)) ?s) =
      map (\<lambda>k. take (nat (chunk_size c)) (drop (k * nat ?s) txt)) [0..<n_chunks c txt]"
    unfolding r by (simp add: sl o_def)
  finally show ?thesis .
qed

lemma n_chunks_iff:
  assumes "chunk_overlap c < chunk_size c"
  shows "k < n_chunks c txt \<longleftrightarrow> int k * (chunk_size c - chunk_overlap c) < int (length txt)"
proof -
  have s: "0 < chunk_size c - chunk_overlap c" using assms by simp
  show ?thesis
    unfolding n_chunks_def zless_nat_eq_int_zless
    by (rule below_ceil_iff[OF s])
qed

subsection \<open>The chunks of a text\<close>

text \<open>
  Claim C1. For a valid configuration (\<open>chunk_size > 0\<close> and
  \<open>0 \<le> chunk_overlap < chunk_size\<close>) and any text, \<open>split\<close> returns, in order of
  increasing start offset, exactly the substrings \<^verbatim>\<open>text[i : i + chunk_size]\<close> at the
  offsets \<open>i = 0, stride, 2 * stride, \<dots>\<close> below the length of the text, where
  \<open>stride = chunk_size - chunk_overlap\<close>: there are \<open>N\<close> chunks, chunk \<open>k\<close> starts at
  \<open>k * stride\<close>, and \<open>k < N\<close> exactly when \<open>k * stride\<close> is below the length. The empty
  text has no chunk. For a text that is not empty, chunk \<open>N - 1\<close> is the first whose
  offset reaches \<open>len(text) - stride\<close>, and \<open>N\<close> is the only number with that property.
\<close>

theorem split_chunks_at_stride_offsets:
  assumes "0 < chunk_size c" "0 \<le> chunk_overlap c" "chunk_overlap c < chunk_size c"
  shows "\<exists>N. split c txt =
           Inr (map (\<lambda>k. take (nat (chunk_size c)) (drop (k * nat (chunk_size c - chunk_overlap c)) txt))
                  [0..<N])
       \<and> (\<forall>k. k < N \<longleftrightarrow> int k * (chunk_size c - chunk_overlap c) < int (length txt))
       \<and> split c [] = Inr []
       \<and> (txt \<noteq> [] \<longrightarrow>
            1 \<le> N
          \<and> int (length txt) - (chunk_size c - chunk_overlap c)
               \<le> (int N - 1) * (chunk_size c - chunk_overlap c)
          \<and> (\<forall>k. int (length txt) - (chunk_size c - chunk_overlap c)
                  \<le> int k * (chunk_size c - chunk_overlap c) \<longrightarrow> N - 1 \<le> k)
          \<and> (\<forall>M. 1 \<le> M
                \<and> int (length txt) - (chunk_size c - chunk_overlap c)
                     \<le> (int M - 1) * (chunk_size c - chunk_overlap c)
                \<and> (\<forall>k. int (length txt) - (chunk_size c - chunk_overlap c)
                        \<le> int k * (chunk_size c - chunk_overlap c) \<longrightarrow> M - 1 \<le> k)
                \<longrightarrow> M = N))"
proof -
  define s where "s = chunk_size c - chunk_overlap c"
  define len where "len = int (length txt)"
  define N where "N = n_chunks c txt"
  have s: "0 < s" using assms by (simp add: s_def)
  have iff: "k < N \<longleftrightarrow> int k * s < len" for k
    unfolding N_def s_def len_def by (rule n_chunks_iff[OF assms(3)])
  have a: "split c txt =
      Inr (map (\<lambda>k. take (nat (chunk_size c)) (drop (k * nat s) txt)) [0..<N])"
    unfolding N_def s_def by (rule split_valid[OF assms])
  have "n_chunks c [] = 0"
    using n_chunks_iff[OF assms(3), of 0 "[]"] by simp
  then have b: "split c [] = Inr []"
    using split_valid[OF assms, of "[]"] by simp
  have d: "1 \<le> N \<and> len - s \<le> (int N - 1) * s
         \<and> (\<forall>k. len - s \<le> int k * s \<longrightarrow> N - 1 \<le> k)
         \<and> (\<forall>M. 1 \<le> M \<and> len - s \<le> (int M - 1) * s
                \<and> (\<forall>k. len - s \<le> int k * s \<longrightarrow> M - 1 \<le> k) \<longrightarrow> M = N)"
    if ne: "txt \<noteq> []"
  proof -
    have "0 < len" using ne by (simp add: len_def)
    then have N1: "1 \<le> N" using iff[of 0] by simp
    have "\<not> int N * s < len" using iff[of N] by simp
    then have last: "len - s \<le> (int N - 1) * s" by (simp add: algebra_simps)
    have first: "N - 1 \<le> k" if "len - s \<le> int k * s" for k
    proof -
      have "\<not> int (Suc k) * s < len" using that by (simp add: algebra_simps)
      then have "\<not> Suc k < N" using iff[of "Suc k"] by simp
      then show ?thesis by simp
    qed
    have uniq: "M = N"
      if M: "1 \<le> M" "len - s \<le> (int M - 1) * s"
        "\<forall>k. len - s \<le> int k * s \<longrightarrow> M - 1 \<le> k" for M
    proof -
      have "int (N - 1) = int N - 1" using N1 by simp
      then have "M - 1 \<le> N - 1" using M(3) last by simp
      moreover have "int (M - 1) = int M - 1" using M(1) by simp
      then have "N - 1 \<le> M - 1" using first[of "M - 1"] M(2) by simp
      ultimately show ?thesis using M(1) N1 by simp
    qed
    show ?thesis using N1 last first uniq by blast
  qed
  show ?thesis
    unfolding s_def[symmetric] len_def[symmetric]
    using a b d iff by blast
qed

theorem split_chunks_at_stride_offsets_witness:
  "split \<lparr>chunk_size = 4, chunk_overlap = 1\<rparr> ''abcdefgh'' = Inr [''abcd'', ''defg'', ''gh'']
   \<and> split \<lparr>chunk_size = 4, chunk_overlap = 1\<rparr> [] = Inr []"
proof -
  let ?c = "\<lparr>chunk_size = 4, chunk_overlap = 1\<rparr>"
  obtain N where
    sp: "split ?c ''abcdefgh'' =
      Inr (map (\<lambda>k. take (nat (chunk_size ?c)) (drop (k * nat (chunk_size ?c - chunk_overlap ?c)) ''abcdefgh''))
            [0..<N])"
    and iff: "\<forall>k. k < N \<longleftrightarrow> int k * (chunk_size ?c - chunk_overlap ?c) < int (length ''abcdefgh'')"
    and em: "split ?c [] = Inr []"
    using split_chunks_at_stride_offsets[of ?c "''abcdefgh''"] by auto
  have "2 < N" using iff by simp
  moreover have "\<not> 3 < N" using iff by simp
  ultimately have "N = 3" by simp
  then show ?thesis using sp em by (simp add: upt_conv_Cons)
qed

subsection \<open>Overlap of consecutive chunks\<close>

text \<open>
  When chunk \<open>i\<close> has its full size (the text reaches \<open>i * stride + chunk_size\<close>), the
  stretch of the text that starts at the next offset and is \<open>chunk_overlap\<close> long is
  both the end of chunk \<open>i\<close> and the start of chunk \<open>i + 1\<close>.
\<close>

lemma overlap_of_full_chunk:
  assumes v: "0 < chunk_size c" "0 \<le> chunk_overlap c" "chunk_overlap c < chunk_size c"
    and sp: "split c txt = Inr chunks"
    and nxt: "Suc i < length chunks"
    and full: "int i * (chunk_size c - chunk_overlap c) + chunk_size c \<le> int (length txt)"
  shows "drop (length (chunks ! i) - nat (chunk_overlap c)) (chunks ! i) =
           take (nat (chunk_overlap c)) (drop (Suc i * nat (chunk_size c - chunk_overlap c)) txt)
       \<and> take (nat (chunk_overlap c)) (chunks ! Suc i) =
           take (nat (chunk_overlap c)) (drop (Suc i * nat (chunk_size c - chunk_overlap c)) txt)
       \<and> length (take (nat (chunk_overlap c)) (drop (Suc i * nat (chunk_size c - chunk_overlap c)) txt)) =
           nat (chunk_overlap c)"
proof -
  define S where "S = nat (chunk_size c - chunk_overlap c)"
  define C where "C = nat (chunk_size c)"
  define V where "V = nat (chunk_overlap c)"
  have CSV: "C = S + V" using v by (simp add: S_def C_def V_def)
  have ch: "chunks = map (\<lambda>k. take C (drop (k * S) txt)) [0..<length chunks]"
    using split_valid[OF v, of "txt"] sp by (auto simp: S_def C_def)
  have ci: "chunks ! i = take C (drop (i * S) txt)"
    using nxt nth_map[of i "[0..<length chunks]" "\<lambda>k. take C (drop (k * S) txt)"] ch by simp
  have cn: "chunks ! Suc i = take C (drop (Suc i * S) txt)"
    using nxt nth_map[of "Suc i" "[0..<length chunks]" "\<lambda>k. take C (drop (k * S) txt)"] ch
    by (simp del: mult_Suc)
  have "int (i * S + C) = int i * (chunk_size c - chunk_overlap c) + chunk_size c"
    using v by (simp add: S_def C_def)
  then have fl: "i * S + C \<le> length txt" using full by linarith
  then have li: "length (chunks ! i) = C" by (simp add: ci)
  have a: "drop (length (chunks ! i) - V) (chunks ! i) = take V (drop (Suc i * S) txt)"
    unfolding li unfolding ci by (simp add: drop_take CSV add.commute)
  have b: "take V (chunks ! Suc i) = take V (drop (Suc i * S) txt)"
    unfolding cn by (simp add: CSV min_def)
  have d: "length (take V (drop (Suc i * S) txt)) = V"
    using fl by (simp add: CSV)
  show ?thesis
    unfolding S_def[symmetric] V_def[symmetric] using a b d by blast
qed

text \<open>
  When the overlap is at most the stride, a chunk that is followed by two more has its
  full size, so "the text is long enough" then follows from "chunk \<open>i + 1\<close> is not the
  last".
\<close>

lemma not_last_imp_full_chunk:
  assumes v: "0 < chunk_size c" "0 \<le> chunk_overlap c" "chunk_overlap c < chunk_size c"
    and small: "2 * chunk_overlap c \<le> chunk_size c"
    and sp: "split c txt = Inr chunks"
    and nl: "Suc i < length chunks - 1"
  shows "int i * (chunk_size c - chunk_overlap c) + chunk_size c \<le> int (length txt)"
proof -
  have "length chunks = n_chunks c txt"
    using split_valid[OF v, of "txt"] sp by auto
  then have "Suc (Suc i) < n_chunks c txt" using nl by simp
  then have "int (Suc (Suc i)) * (chunk_size c - chunk_overlap c) < int (length txt)"
    using n_chunks_iff[OF v(3)] by blast
  then show ?thesis using small by (simp add: algebra_simps)
qed

text \<open>
  Claim C4. For a valid configuration and any text, whenever chunk \<open>i + 1\<close> is not the
  last chunk and the text is long enough for chunk \<open>i\<close> to have its full size (it
  reaches \<open>i * stride + chunk_size\<close>), the chunks \<open>c[i]\<close> and \<open>c[i + 1]\<close> share exactly
  \<open>chunk_overlap\<close> characters: the last \<open>chunk_overlap\<close> characters of \<open>c[i]\<close> are the
  first \<open>chunk_overlap\<close> characters of \<open>c[i + 1]\<close>, and that shared stretch is
  \<open>chunk_overlap\<close> long.
\<close>

theorem consecutive_chunks_share_overlap:
  assumes "0 < chunk_size c" "0 \<le> chunk_overlap c" "chunk_overlap c < chunk_size c"
    and "split c txt = Inr chunks"
    and "Suc i < length chunks - 1"
    and "int i * (chunk_size c - chunk_overlap c) + chunk_size c \<le> int (length txt)"
  shows "drop (length (chunks ! i) - nat (chunk_overlap c)) (chunks ! i) =
           take (nat (chunk_overlap c)) (chunks ! Suc i)
       \<and> length (take (nat (chunk_overlap c)) (chunks ! Suc i)) = nat (chunk_overlap c)"
proof -
  have nxt: "Suc i < length chunks" using assms(5) by simp
  show ?thesis
    using overlap_of_full_chunk[OF assms(1) assms(2) assms(3) assms(4) nxt assms(6)] by simp
qed

theorem consecutive_chunks_share_overlap_witness:
  "split \<lparr>chunk_size = 4, chunk_overlap = 1\<rparr> ''abcdefghij'' = Inr [''abcd'', ''defg'', ''ghij'', ''j'']
   \<and> drop (length ''abcd'' - 1) ''abcd'' = take 1 ''defg''
   \<and> length (take 1 ''defg'') = 1"
proof -
  let ?c = "\<lparr>chunk_size = 4, chunk_overlap = 1\<rparr>"
  let ?chunks = "[''abcd'', ''defg'', ''ghij'', ''j'']"
  have sp: "split ?c ''abcdefghij'' = Inr ?chunks"
    by (simp add: split_def py_range_def py_slice_def slice_bound_def)
  have "drop (length (?chunks ! 0) - nat (chunk_overlap ?c)) (?chunks ! 0) =
           take (nat (chunk_overlap ?c)) (?chunks ! Suc 0)
       \<and> length (take (nat (chunk_overlap ?c)) (?chunks ! Suc 0)) = nat (chunk_overlap ?c)"
    by (rule consecutive_chunks_share_overlap[of "?c" "''abcdefghij''" "?chunks" 0, OF _ _ _ sp])
       simp_all
  then show ?thesis using sp by simp
qed

subsection \<open>Construction\<close>

lemma CharacterTextSplitter_init_Inr:
  "CharacterTextSplitter_init csize coverlap = Inr c \<Longrightarrow>
     chunk_size c = csize \<and> chunk_overlap c = coverlap \<and> chunk_overlap c < chunk_size c"
  by (auto simp: CharacterTextSplitter_init_def split: if_splits)

text \<open>
  Claim C5. For every pair of integers with \<open>chunk_overlap \<ge> chunk_size\<close> the
  construction of the splitter fails, at construction time, with the assertion error
  whose message is "Chunk size must be greater than chunk overlap" (the code's
  InvalidConfiguration); no splitter object comes out of it, so \<open>split\<close> is never
  reached with such a configuration.
\<close>

theorem init_rejects_overlap_not_below_size:
  assumes "csize \<le> coverlap"
  shows "CharacterTextSplitter_init csize coverlap =
           Inl (AssertionError ''Chunk size must be greater than chunk overlap'')
       \<and> (\<forall>c. CharacterTextSplitter_init csize coverlap \<noteq> Inr c)"
  using assms by (simp add: CharacterTextSplitter_init_def)

theorem init_rejects_overlap_not_below_size_witness:
  "CharacterTextSplitter_init 1000 1000 =
     Inl (AssertionError ''Chunk size must be greater than chunk overlap'')
   \<and> CharacterTextSplitter_init 50 200 =
     Inl (AssertionError ''Chunk size must be greater than chunk overlap'')"
  using init_rejects_overlap_not_below_size[of 1000 1000]
    init_rejects_overlap_not_below_size[of 50 200]
  by simp

section \<open>Properties of TextFileLoader\<close>

subsection \<open>What a load appends\<close>

text \<open>
  Whatever a load returns, it has only appended to \<^verbatim>\<open>documents\<close> and to the calls made;
  what it appends and what it returns depend on the file system, the path and the
  encoding alone, not on the documents loaded before.
\<close>

lemma load_directory_files_frame:
  "load_directory_files fs root files self calls = (r, self', calls') \<Longrightarrow>
   \<exists>new ev. self' = self\<lparr>documents := documents self @ new\<rparr> \<and> calls' = calls @ ev
     \<and> (\<forall>self2 calls2. encoding self2 = encoding self \<longrightarrow>
           load_directory_files fs root files self2 calls2 =
             (r, self2\<lparr>documents := documents self2 @ new\<rparr>, calls2 @ ev))"
proof (induction files arbitrary: self calls)
  case Nil
  then show ?case by (intro exI[of _ "[]"]) simp
next
  case (Cons name names)
  show ?case
  proof (cases "endswith name ''.txt''")
    case False
    with Cons.prems have "load_directory_files fs root names self calls = (r, self', calls')" by simp
    from Cons.IH[OF this] False show ?thesis by simp
  next
    case True
    show ?thesis
    proof (cases "open_read fs (os_path_join root name) (encoding self)")
      case (Inl e)
      with True Cons.prems
      have "r = Inl e" "self' = self" "calls' = calls @ [OpenRead (os_path_join root name)]"
        by simp_all
      with True Inl show ?thesis
        by (intro exI[of _ "[]"] exI[of _ "[OpenRead (os_path_join root name)]"]) simp
    next
      case (Inr content)
      let ?s = "self\<lparr>documents := documents self @ [content]\<rparr>"
      let ?c = "calls @ [OpenRead (os_path_join root name)]"
      from True Inr Cons.prems
      have "load_directory_files fs root names ?s ?c = (r, self', calls')" by simp
      from Cons.IH[OF this] obtain new ev where
        a: "self' = ?s\<lparr>documents := documents ?s @ new\<rparr>" and b: "calls' = ?c @ ev"
        and f: "\<forall>self2 calls2. encoding self2 = encoding ?s \<longrightarrow>
           load_directory_files fs root names self2 calls2 =
             (r, self2\<lparr>documents := documents self2 @ new\<rparr>, calls2 @ ev)"
        by blast
      show ?thesis
      proof (intro exI[of _ "content # new"] exI[of _ "OpenRead (os_path_join root name) # ev"] conjI allI impI)
        show "self' = self\<lparr>documents := documents self @ content # new\<rparr>" using a by simp
        show "calls' = calls @ OpenRead (os_path_join root name) # ev" using b by simp
        fix self2 :: TextFileLoader and calls2
        assume e: "encoding self2 = encoding self"
        have "load_directory_files fs root names (self2\<lparr>documents := documents self2 @ [content]\<rparr>)
                (calls2 @ [OpenRead (os_path_join root name)]) =
              (r, (self2\<lparr>documents := documents self2 @ [content]\<rparr>)
                    \<lparr>documents := documents (self2\<lparr>documents := documents self2 @ [content]\<rparr>) @ new\<rparr>,
               (calls2 @ [OpenRead (os_path_join root name)]) @ ev)"
          using f e by simp
        then show "load_directory_files fs root (name # names) self2 calls2 =
          (r, self2\<lparr>documents := documents self2 @ content # new\<rparr>,
           calls2 @ OpenRead (os_path_join root name) # ev)"
          using True Inr e by simp
      qed
    qed
  qed
qed


lemma load_directory_walk_frame:
  "load_directory_walk fs triples self calls = (r, self', calls') \<Longrightarrow>
   \<exists>new ev. self' = self\<lparr>documents := documents self @ new\<rparr> \<and> calls' = calls @ ev
     \<and> (\<forall>self2 calls2. encoding self2 = encoding self \<longrightarrow>
           load_directory_walk fs triples self2 calls2 =
             (r, self2\<lparr>documents := documents self2 @ new\<rparr>, calls2 @ ev))"
proof (induction triples arbitrary: self calls)
  case Nil
  then show ?case by (intro exI[of _ "[]"]) simp
next
  case (Cons triple rest)
  obtain root dirs names where t: "triple = (root, dirs, names)" by (cases triple)
  obtain r1 s1 c1 where one: "load_directory_files fs root names self calls = (r1, s1, c1)"
    by (cases "load_directory_files fs root names self calls")
  from load_directory_files_frame[OF one] obtain new1 ev1 where
    s1: "s1 = self\<lparr>documents := documents self @ new1\<rparr>" and c1: "c1 = calls @ ev1"
    and f1: "\<forall>self2 calls2. encoding self2 = encoding self \<longrightarrow>
           load_directory_files fs root names self2 calls2 =
             (r1, self2\<lparr>documents := documents self2 @ new1\<rparr>, calls2 @ ev1)"
    by blast
  show ?case
  proof (cases r1)
    case (Inl e)
    with Cons.prems t one have "r = Inl e" "self' = s1" "calls' = c1" by simp_all
    with s1 c1 f1 Inl t show ?thesis
      by (intro exI[of _ new1] exI[of _ ev1]) simp
  next
    case (Inr u)
    with Cons.prems t one have "load_directory_walk fs rest s1 c1 = (r, self', calls')" by simp
    from Cons.IH[OF this] obtain new2 ev2 where
      a: "self' = s1\<lparr>documents := documents s1 @ new2\<rparr>" and b: "calls' = c1 @ ev2"
      and f2: "\<forall>self2 calls2. encoding self2 = encoding s1 \<longrightarrow>
           load_directory_walk fs rest self2 calls2 =
             (r, self2\<lparr>documents := documents self2 @ new2\<rparr>, calls2 @ ev2)"
      by blast
    show ?thesis
    proof (intro exI[of _ "new1 @ new2"] exI[of _ "ev1 @ ev2"] conjI allI impI)
      show "self' = self\<lparr>documents := documents self @ new1 @ new2\<rparr>" using a s1 by simp
      show "calls' = calls @ ev1 @ ev2" using b c1 by simp
      fix self2 :: TextFileLoader and calls2
      assume e: "encoding self2 = encoding self"
      have "load_directory_files fs root names self2 calls2 =
             (Inr u, self2\<lparr>documents := documents self2 @ new1\<rparr>, calls2 @ ev1)"
        using f1 e Inr by simp
      moreover have "load_directory_walk fs rest (self2\<lparr>documents := documents self2 @ new1\<rparr>) (calls2 @ ev1) =
             (r, self2\<lparr>documents := documents self2 @ new1 @ new2\<rparr>, calls2 @ ev1 @ ev2)"
        using f2 e s1 by simp
      ultimately show "load_directory_walk fs (triple # rest) self2 calls2 =
          (r, self2\<lparr>documents := documents self2 @ new1 @ new2\<rparr>, calls2 @ ev1 @ ev2)"
        using t by simp
    qed
  qed
qed

lemma TextFileLoader_load_frame:
  assumes "TextFileLoader_load fs self calls = (r, self', calls')"
  shows "\<exists>new ev. self' = self\<lparr>documents := documents self @ new\<rparr> \<and> calls' = calls @ ev
     \<and> (\<forall>self2 calls2. path self2 = path self \<and> encoding self2 = encoding self \<longrightarrow>
           TextFileLoader_load fs self2 calls2 =
             (r, self2\<lparr>documents := documents self2 @ new\<rparr>, calls2 @ ev))"
proof (cases "os_path_isdir fs (path self)")
  case True
  with assms have "load_directory_walk fs (os_walk fs (path self)) self
      (calls @ [IsDir (path self), Walk (path self)]) = (r, self', calls')"
    by (simp add: TextFileLoader_load_def load_directory_def)
  from load_directory_walk_frame[OF this] obtain new ev where
    a: "self' = self\<lparr>documents := documents self @ new\<rparr>"
    and b: "calls' = (calls @ [IsDir (path self), Walk (path self)]) @ ev"
    and f: "\<forall>self2 calls2. encoding self2 = encoding self \<longrightarrow>
           load_directory_walk fs (os_walk fs (path self)) self2 calls2 =
             (r, self2\<lparr>documents := documents self2 @ new\<rparr>, calls2 @ ev)"
    by blast
  show ?thesis
  proof (intro exI[of _ new] exI[of _ "[IsDir (path self), Walk (path self)] @ ev"] conjI allI impI)
    show "self' = self\<lparr>documents := documents self @ new\<rparr>" by (rule a)
    show "calls' = calls @ [IsDir (path self), Walk (path self)] @ ev" using b by simp
    fix self2 :: TextFileLoader and calls2
    assume e: "path self2 = path self \<and> encoding self2 = encoding self"
    then show "TextFileLoader_load fs self2 calls2 =
        (r, self2\<lparr>documents := documents self2 @ new\<rparr>,
         calls2 @ [IsDir (path self), Walk (path self)] @ ev)"
      using f True by (simp add: TextFileLoader_load_def load_directory_def)
  qed
next
  case False
  show ?thesis
  proof (cases "os_path_isfile fs (path self) \<and> endswith (path self) ''.txt''")
    case no: False
    with False assms show ?thesis
      by (intro exI[of _ "[]"] exI[of _ "[IsDir (path self), IsFile (path self)]"])
         (auto simp: TextFileLoader_load_def)
  next
    case yes: True
    show ?thesis
    proof (cases "open_read fs (path self) (encoding self)")
      case (Inl e)
      with False yes assms show ?thesis
        by (intro exI[of _ "[]"]
              exI[of _ "[IsDir (path self), IsFile (path self), OpenRead (path self)]"])
           (auto simp: TextFileLoader_load_def load_file_def)
    next
      case (Inr content)
      with False yes assms show ?thesis
        by (intro exI[of _ "[content]"]
              exI[of _ "[IsDir (path self), IsFile (path self), OpenRead (path self)]"])
           (auto simp: TextFileLoader_load_def load_file_def)
    qed
  qed
qed

subsection \<open>Paths that are neither a directory nor a text file\<close>

text \<open>
  Claim C8. For every path that is neither a directory nor a file whose name ends in
  \<^verbatim>\<open>.txt\<close> (a missing path, a wrong extension, something that is neither file nor
  directory), \<open>load\<close> fails with the error "Provided path is neither a valid directory
  nor a .txt file." (a \<^verbatim>\<open>ValueError\<close>, the code's InvalidPath); the only calls it has
  made to the file system are the two checks \<^verbatim>\<open>isdir\<close> and \<^verbatim>\<open>isfile\<close>, nothing is opened,
  and the loader is as it was: no document is loaded.
\<close>

theorem load_rejects_other_paths:
  assumes "\<not> os_path_isdir fs (path self)"
    and "\<not> (os_path_isfile fs (path self) \<and> endswith (path self) ''.txt'')"
  shows "TextFileLoader_load fs self calls =
           (Inl (ValueError ''Provided path is neither a valid directory nor a .txt file.''),
            self, calls @ [IsDir (path self), IsFile (path self)])
       \<and> TextFileLoader_load_documents fs self calls =
           (Inl (ValueError ''Provided path is neither a valid directory nor a .txt file.''),
            self, calls @ [IsDir (path self), IsFile (path self)])"
  using assms by (auto simp add: TextFileLoader_load_documents_def TextFileLoader_load_def)

theorem load_rejects_other_paths_witness:
  "TextFileLoader_load example_fs (TextFileLoader_init ''data/notes.md'' ''utf-8'') [] =
     (Inl (ValueError ''Provided path is neither a valid directory nor a .txt file.''),
      TextFileLoader_init ''data/notes.md'' ''utf-8'',
      [IsDir ''data/notes.md'', IsFile ''data/notes.md''])
   \<and> TextFileLoader_load example_fs (TextFileLoader_init ''missing.txt'' ''utf-8'') [] =
     (Inl (ValueError ''Provided path is neither a valid directory nor a .txt file.''),
      TextFileLoader_init ''missing.txt'' ''utf-8'',
      [IsDir ''missing.txt'', IsFile ''missing.txt''])"
proof -
  have a: "\<not> os_path_isdir example_fs (path (TextFileLoader_init ''data/notes.md'' ''utf-8''))"
    by (simp add: example_fs_def TextFileLoader_init_def)
  have b: "\<not> (os_path_isfile example_fs (path (TextFileLoader_init ''data/notes.md'' ''utf-8''))
            \<and> endswith (path (TextFileLoader_init ''data/notes.md'' ''utf-8'')) ''.txt'')"
    by (simp add: TextFileLoader_init_def endswith_def)
  have c: "\<not> os_path_isdir example_fs (path (TextFileLoader_init ''missing.txt'' ''utf-8''))"
    by (simp add: example_fs_def TextFileLoader_init_def)
  have d: "\<not> (os_path_isfile example_fs (path (TextFileLoader_init ''missing.txt'' ''utf-8''))
            \<and> endswith (path (TextFileLoader_init ''missing.txt'' ''utf-8'')) ''.txt'')"
    by (simp add: example_fs_def example_files_def TextFileLoader_init_def)
  show ?thesis
    using load_rejects_other_paths[OF a b, of "[]"] load_rejects_other_paths[OF c d, of "[]"]
    by (simp add: TextFileLoader_init_def)
qed

subsection \<open>Loading a directory\<close>

lemma load_directory_files_readable:
  assumes "\<forall>p \<in> set (map (os_path_join root) (filter (\<lambda>n. endswith n ''.txt'') names)).
             open_read fs p (encoding self) = Inr (content p)"
  shows "load_directory_files fs root names self calls =
     (Inr (),
      self\<lparr>documents := documents self @
        map content (map (os_path_join root) (filter (\<lambda>n. endswith n ''.txt'') names))\<rparr>,
      calls @ map OpenRead (map (os_path_join root) (filter (\<lambda>n. endswith n ''.txt'') names)))"
  using assms
proof (induction names arbitrary: self calls)
  case Nil
  then show ?case by simp
next
  case (Cons name names)
  show ?case
  proof (cases "endswith name ''.txt''")
    case False
    with Cons show ?thesis by simp
  next
    case True
    let ?s = "self\<lparr>documents := documents self @ [content (os_path_join root name)]\<rparr>"
    have rd: "open_read fs (os_path_join root name) (encoding self) = Inr (content (os_path_join root name))"
      using Cons.prems True by simp
    have "\<forall>p \<in> set (map (os_path_join root) (filter (\<lambda>n. endswith n ''.txt'') names)).
             open_read fs p (encoding ?s) = Inr (content p)"
      using Cons.prems by simp
    from Cons.IH[OF this] rd True show ?thesis by simp
  qed
qed

lemma load_directory_walk_readable:
  assumes "\<forall>p \<in> set (txt_paths triples). open_read fs p (encoding self) = Inr (content p)"
  shows "load_directory_walk fs triples self calls =
     (Inr (), self\<lparr>documents := documents self @ map content (txt_paths triples)\<rparr>,
      calls @ map OpenRead (txt_paths triples))"
  using assms
proof (induction triples arbitrary: self calls)
  case Nil
  then show ?case by (simp add: txt_paths_def)
next
  case (Cons triple rest)
  obtain root dirs names where t: "triple = (root, dirs, names)" by (cases triple)
  let ?ps = "map (os_path_join root) (filter (\<lambda>n. endswith n ''.txt'') names)"
  have tp: "txt_paths (triple # rest) = ?ps @ txt_paths rest"
    by (simp add: txt_paths_def t)
  have one: "load_directory_files fs root names self calls =
     (Inr (), self\<lparr>documents := documents self @ map content ?ps\<rparr>, calls @ map OpenRead ?ps)"
    using Cons.prems tp by (intro load_directory_files_readable) simp
  have "\<forall>p \<in> set (txt_paths rest).
      open_read fs p (encoding (self\<lparr>documents := documents self @ map content ?ps\<rparr>)) = Inr (content p)"
    using Cons.prems tp by simp
  from Cons.IH[OF this] one t tp show ?case by simp
qed

lemma txt_paths_set:
  "set (txt_paths triples) =
     {os_path_join root name | root dirs names name.
        (root, dirs, names) \<in> set triples \<and> name \<in> set names \<and> endswith name ''.txt''}"
  by (auto simp: txt_paths_def)

text \<open>
  Claim C9. On a directory, \<open>load\<close> goes through everything \<^verbatim>\<open>os.walk\<close> yields for it (the
  directory and, recursively, the directories below) and loads exactly the files whose
  names end in \<^verbatim>\<open>.txt\<close>, in that order, each read appended as one document; other
  names are skipped without being opened. (Every one of those files being readable: a
  read that raises ends the load.) In the example, a directory with three \<^verbatim>\<open>.txt\<close>
  files and one \<^verbatim>\<open>.md\<close> file gives exactly three documents.
\<close>

theorem load_directory_loads_txt_files:
  assumes "os_path_isdir fs (path self)"
    and "\<forall>p \<in> set (txt_paths (os_walk fs (path self))).
           open_read fs p (encoding self) = Inr (content p)"
  shows "TextFileLoader_load fs self calls =
           (Inr (),
            self\<lparr>documents := documents self @ map content (txt_paths (os_walk fs (path self)))\<rparr>,
            calls @ [IsDir (path self), Walk (path self)]
              @ map OpenRead (txt_paths (os_walk fs (path self))))"
  using assms load_directory_walk_readable[of "os_walk fs (path self)" fs self content
      "calls @ [IsDir (path self), Walk (path self)]"]
  by (simp add: TextFileLoader_load_def load_directory_def)

theorem load_directory_loads_txt_files_witness:
  "TextFileLoader_load_documents example_fs (TextFileLoader_init ''data'' ''utf-8'') [] =
     (Inr [''alpha'', ''beta'', ''gamma''],
      \<lparr>documents = [''alpha'', ''beta'', ''gamma''], path = ''data'', encoding = ''utf-8''\<rparr>,
      [IsDir ''data'', Walk ''data'', OpenRead ''data/a.txt'', OpenRead ''data/sub/b.txt'',
       OpenRead ''data/sub/c.txt''])"
proof -
  let ?l = "TextFileLoader_init ''data'' ''utf-8''"
  have tp: "txt_paths (os_walk example_fs (path ?l)) = [''data/a.txt'', ''data/sub/b.txt'', ''data/sub/c.txt'']"
    by (simp add: txt_paths_def example_fs_def TextFileLoader_init_def endswith_def os_path_join_def)
  have a: "os_path_isdir example_fs (path ?l)"
    by (simp add: example_fs_def TextFileLoader_init_def)
  have b: "\<forall>p \<in> set (txt_paths (os_walk example_fs (path ?l))).
           open_read example_fs p (encoding ?l) = Inr (example_content p)"
    unfolding tp by (simp add: example_fs_def example_files_def example_content_def)
  show ?thesis
    using load_directory_loads_txt_files[OF a b, of "[]"]
    unfolding tp
    by (simp add: TextFileLoader_load_documents_def TextFileLoader_init_def example_content_def
        example_files_def)
qed

section \<open>Properties of YouTubeLoader\<close>

subsection \<open>The video identifier\<close>

lemma extract_loop_none:
  "(\<forall>p \<in> set ps. re_search p u = None) \<Longrightarrow>
     extract_loop ps u = Inl (ValueError (''Could not extract video ID from URL: '' @ u))"
  by (induction ps) simp_all

lemma extract_loop_first:
  "k < length ps \<Longrightarrow> re_search (ps ! k) u = Some g \<Longrightarrow>
   (\<forall>j<k. re_search (ps ! j) u = None) \<Longrightarrow> extract_loop ps u = Inr g"
proof (induction ps arbitrary: k)
  case Nil
  then show ?case by simp
next
  case (Cons p ps)
  show ?case
  proof (cases k)
    case 0
    with Cons.prems show ?thesis by simp
  next
    case (Suc k')
    have "re_search p u = None" using Cons.prems(3) Suc by auto
    moreover have "extract_loop ps u = Inr g"
    proof (rule Cons.IH[of k'])
      show "k' < length ps" using Cons.prems(1) Suc by simp
      show "re_search (ps ! k') u = Some g" using Cons.prems(2) Suc by simp
      show "\<forall>j<k'. re_search (ps ! j) u = None"
      proof (intro allI impI)
        fix j assume "j < k'"
        then have "Suc j < k" using Suc by simp
        then have "re_search ((p # ps) ! Suc j) u = None" using Cons.prems(3) by blast
        then show "re_search (ps ! j) u = None" by simp
      qed
    qed
    ultimately show ?thesis by simp
  qed
qed

text \<open>
  Claim C7. For every URL that none of the patterns matches, loading from it fails
  with the error "Could not extract video ID from URL: ..." (a \<^verbatim>\<open>ValueError\<close>, the
  code's InvalidIdentifier): the constructor raises it, so no loader exists, the load is
  never started and no request is sent. For a URL that some pattern matches, the
  identifier is the first group of the first pattern, in the fixed order, that matches.
\<close>

theorem unmatched_url_fails_without_requests:
  "((\<forall>p \<in> set patterns. re_search p u = None) \<longrightarrow>
      YouTubeLoader_init u with_metadata =
        Inl (ValueError (''Could not extract video ID from URL: '' @ u))
    \<and> load_from_url w u with_metadata sent =
        (Inl (ValueError (''Could not extract video ID from URL: '' @ u)), sent))
 \<and> (k < length patterns \<and> re_search (patterns ! k) u = Some g
      \<and> (\<forall>j<k. re_search (patterns ! j) u = None) \<longrightarrow>
      extract_video_id u = Inr g
    \<and> (\<exists>self. YouTubeLoader_init u with_metadata = Inr self \<and> video_id self = g))"
proof (intro conjI impI)
  assume a: "\<forall>p \<in> set patterns. re_search p u = None"
  have e: "extract_video_id u = Inl (ValueError (''Could not extract video ID from URL: '' @ u))"
    unfolding extract_video_id_def using a by (rule extract_loop_none)
  then show i: "YouTubeLoader_init u with_metadata =
      Inl (ValueError (''Could not extract video ID from URL: '' @ u))"
    by (simp add: YouTubeLoader_init_def)
  then show "load_from_url w u with_metadata sent =
      (Inl (ValueError (''Could not extract video ID from URL: '' @ u)), sent)"
    by (simp add: load_from_url_def)
next
  assume b: "k < length patterns \<and> re_search (patterns ! k) u = Some g
      \<and> (\<forall>j<k. re_search (patterns ! j) u = None)"
  then show e: "extract_video_id u = Inr g"
    unfolding extract_video_id_def using extract_loop_first[of k patterns u g] by blast
  then show "\<exists>self. YouTubeLoader_init u with_metadata = Inr self \<and> video_id self = g"
    by (simp add: YouTubeLoader_init_def)
qed

theorem unmatched_url_fails_without_requests_witness:
  "load_from_url example_web ''https://example.com/video'' True [] =
     (Inl (ValueError ''Could not extract video ID from URL: https://example.com/video''), [])
   \<and> extract_video_id ''https://www.youtube.com/embed/xyz_9?start=5'' = Inr ''xyz_9''"
proof -
  have none: "\<forall>p \<in> set patterns. re_search p ''https://example.com/video'' = None"
    by (simp add: patterns_def startswith_def)
  have hit: "0 < length patterns
      \<and> re_search (patterns ! 0) ''https://www.youtube.com/embed/xyz_9?start=5'' = Some ''xyz_9''
      \<and> (\<forall>j<0. re_search (patterns ! j) ''https://www.youtube.com/embed/xyz_9?start=5'' = None)"
    by (simp add: patterns_def startswith_def id_char_def)
  show ?thesis
    using unmatched_url_fails_without_requests[of "''https://example.com/video''" True
        example_web "[]" 0 "''xyz_9''"] none
      unmatched_url_fails_without_requests[of "''https://www.youtube.com/embed/xyz_9?start=5''" True
        example_web "[]" 0 "''xyz_9''"] hit
    by simp
qed

subsection \<open>A transcript that cannot be fetched\<close>

text \<open>
  Claim C6. If the fetch of the English transcript and the retry without a language
  both raise, \<open>load\<close> fails: the error (a \<^verbatim>\<open>ValueError\<close>, the code's
  TranscriptUnavailable) carries the video identifier and the text of what the retry
  raised; the loader is as it was, so no document is produced, and the metadata is
  never requested.
\<close>

theorem transcript_unavailable_fails_load:
  assumes "api_fetch w (video_id self) (Some [''en'']) = Inl e1"
    and "api_fetch w (video_id self) None = Inl e2"
  shows "YouTubeLoader_load w self sent =
           (Inl (ValueError (''Failed to load YouTube video: ''
                   @ ''Could not retrieve transcript for video '' @ video_id self
                   @ '': '' @ exc_str e2)),
            self,
            sent @ [TranscriptFetch (video_id self) (Some [''en'']),
                    TranscriptFetch (video_id self) None])
       \<and> YouTubeLoader_load_documents w self sent =
           (Inl (ValueError (''Failed to load YouTube video: ''
                   @ ''Could not retrieve transcript for video '' @ video_id self
                   @ '': '' @ exc_str e2)),
            self,
            sent @ [TranscriptFetch (video_id self) (Some [''en'']),
                    TranscriptFetch (video_id self) None])"
  using assms
  by (simp add: YouTubeLoader_load_documents_def YouTubeLoader_load_def get_transcript_def)

theorem transcript_unavailable_fails_load_witness:
  "YouTubeLoader_load_documents example_web_no_transcript example_loader [] =
     (Inl (ValueError (''Failed to load YouTube video: ''
             @ ''Could not retrieve transcript for video abc123: transcripts are disabled'')),
      example_loader,
      [TranscriptFetch ''abc123'' (Some [''en'']), TranscriptFetch ''abc123'' None])"
proof -
  have a: "api_fetch example_web_no_transcript (video_id example_loader) (Some [''en''])
      = Inl (OtherException ''no English transcript'')"
    by (simp add: example_web_no_transcript_def)
  have b: "api_fetch example_web_no_transcript (video_id example_loader) None
      = Inl (OtherException ''transcripts are disabled'')"
    by (simp add: example_web_no_transcript_def)
  show ?thesis
    using transcript_unavailable_fails_load[OF a b, of "[]"]
    by (simp add: example_loader_def)
qed

subsection \<open>A metadata request that fails\<close>

lemma get_video_metadata_fails:
  "metadata_fetch_fails w self \<Longrightarrow>
     get_video_metadata w self sent = (placeholder_metadata, sent @ [MetadataGet (oembed_url self)])"
  by (auto simp: metadata_fetch_fails_def get_video_metadata_def
      split: sum.splits option.splits)

lemma get_video_metadata_sent:
  "snd (get_video_metadata w self sent) = sent @ [MetadataGet (oembed_url self)]"
  by (auto simp: get_video_metadata_def split: sum.splits option.splits)

text \<open>
  Claim C2, as the code has it. If the metadata request fails (the request raises, the
  status check raises, or the body does not parse) and the transcript was fetched,
  \<open>load\<close> does not fail: the document it appends is the template filled with the
  title "Unknown", the author "Unknown" and the transcript body, and the metadata it
  keeps is the placeholder, whose title and author are "Unknown" and whose provider is
  "YouTube" (not "Unknown").
\<close>

theorem metadata_failure_gives_placeholder:
  assumes "include_metadata self"
    and "get_transcript w self sent = (Inr transcript, sent1)"
    and "metadata_fetch_fails w self"
  shows "YouTubeLoader_load w self sent =
           (Inr (),
            self\<lparr>metadata := placeholder_metadata,
                 documents := documents self
                   @ [format_document ''Unknown'' ''Unknown'' (video_id self) (url self) transcript]\<rparr>,
            sent1 @ [MetadataGet (oembed_url self)])
       \<and> (\<exists>header. format_document ''Unknown'' ''Unknown'' (video_id self) (url self) transcript
             = header @ transcript)
       \<and> dict_get placeholder_metadata ''title'' d = Inr (PyStr ''Unknown'')
       \<and> dict_get placeholder_metadata ''author_name'' d = Inr (PyStr ''Unknown'')
       \<and> dict_get placeholder_metadata ''provider_name'' d = Inr (PyStr ''YouTube'')"
proof -
  have md: "get_video_metadata w self sent1 = (placeholder_metadata, sent1 @ [MetadataGet (oembed_url self)])"
    using assms(3) by (rule get_video_metadata_fails)
  have t: "dict_get placeholder_metadata ''title'' d = Inr (PyStr ''Unknown'')" for d
    by (simp add: dict_get_def placeholder_metadata_def)
  have a: "dict_get placeholder_metadata ''author_name'' d = Inr (PyStr ''Unknown'')" for d
    by (simp add: dict_get_def placeholder_metadata_def)
  have p: "dict_get placeholder_metadata ''provider_name'' d = Inr (PyStr ''YouTube'')"
    by (simp add: dict_get_def placeholder_metadata_def)
  have l: "YouTubeLoader_load w self sent =
           (Inr (),
            self\<lparr>metadata := placeholder_metadata,
                 documents := documents self
                   @ [format_document ''Unknown'' ''Unknown'' (video_id self) (url self) transcript]\<rparr>,
            sent1 @ [MetadataGet (oembed_url self)])"
    using assms(1,2) md t a by (simp add: YouTubeLoader_load_def)
  have h: "\<exists>header. format_document ''Unknown'' ''Unknown'' (video_id self) (url self) transcript
             = header @ transcript"
    unfolding format_document_def by (metis append.assoc)
  show ?thesis using l h t a p by blast
qed

theorem metadata_failure_gives_placeholder_witness:
  "YouTubeLoader_load_documents example_web_metadata_down example_loader [] =
     (Inr [format_document ''Unknown'' ''Unknown'' ''abc123'' example_url ''hello world''],
      example_loader\<lparr>metadata := placeholder_metadata,
        documents := [format_document ''Unknown'' ''Unknown'' ''abc123'' example_url ''hello world'']\<rparr>,
      [TranscriptFetch ''abc123'' (Some [''en'']), MetadataGet (oembed_url example_loader)])"
proof -
  have a: "include_metadata example_loader" by (simp add: example_loader_def)
  have b: "get_transcript example_web_metadata_down example_loader [] =
      (Inr ''hello world'', [TranscriptFetch ''abc123'' (Some [''en''])])"
    by (simp add: get_transcript_def example_web_metadata_down_def example_fetch_def
        example_loader_def)
  have c: "metadata_fetch_fails example_web_metadata_down example_loader"
    by (simp add: metadata_fetch_fails_def example_web_metadata_down_def)
  show ?thesis
    using metadata_failure_gives_placeholder[OF a b c]
    by (simp add: YouTubeLoader_load_documents_def example_loader_def)
qed

text \<open>
  The provider of the placeholder, read off the loader after a load whose metadata
  request raised: it is "YouTube".
\<close>

theorem placeholder_provider_is_YouTube:
  "dict_get
     (metadata (fst (snd (YouTubeLoader_load example_web_metadata_down example_loader []))))
     ''provider_name'' (PyStr ''absent'') = Inr (PyStr ''YouTube'')
   \<and> dict_get
     (metadata (fst (snd (YouTubeLoader_load example_web_metadata_down example_loader []))))
     ''provider_name'' (PyStr ''absent'') \<noteq> Inr (PyStr ''Unknown'')"
  by (simp add: YouTubeLoader_load_def get_transcript_def get_video_metadata_def
      example_web_metadata_down_def example_fetch_def example_loader_def
      placeholder_metadata_def dict_get_def)

subsection \<open>The order of the steps\<close>

lemma get_transcript_cases:
  "\<exists>fetches. snd (get_transcript w self sent) = sent @ fetches
     \<and> (fetches = [TranscriptFetch (video_id self) (Some [''en''])]
        \<or> fetches = [TranscriptFetch (video_id self) (Some [''en'']),
                      TranscriptFetch (video_id self) None])"
  by (auto simp: get_transcript_def split: sum.splits)

text \<open>
  Claim C3, as the code has it. The identifier is extracted by the constructor, before
  any load: a URL without one fails there and nothing is requested. A load with
  metadata requested then fetches the transcript first (the English request, and the
  retry if that raises), requests the metadata after it, and assembles the document
  last, from the metadata it has just stored and the transcript. A transcript that
  cannot be fetched aborts the load before the metadata is requested, leaving the loader
  as it was.
\<close>

theorem load_fetches_transcript_then_metadata:
  "(extract_video_id u = Inl e \<longrightarrow> load_from_url w u True sent = (Inl e, sent))
 \<and> (include_metadata self \<longrightarrow>
      (\<exists>fetches. snd (get_transcript w self sent) = sent @ fetches
         \<and> (fetches = [TranscriptFetch (video_id self) (Some [''en''])]
            \<or> fetches = [TranscriptFetch (video_id self) (Some [''en'']),
                          TranscriptFetch (video_id self) None])
         \<and> (case fst (get_transcript w self sent) of
               Inl e' \<Rightarrow>
                 YouTubeLoader_load w self sent =
                   (Inl (ValueError (''Failed to load YouTube video: '' @ exc_str e')), self,
                    sent @ fetches)
             | Inr transcript \<Rightarrow>
                 (case YouTubeLoader_load w self sent of
                    (r, self', sent') \<Rightarrow>
                      sent' = sent @ fetches @ [MetadataGet (oembed_url self)]
                    \<and> (r = Inr () \<longrightarrow>
                         (\<exists>title author.
                            dict_get (metadata self') ''title'' (PyStr ''Unknown'') = Inr title
                          \<and> dict_get (metadata self') ''author_name'' (PyStr ''Unknown'') = Inr author
                          \<and> documents self' = documents self
                               @ [format_document (py_str title) (py_str author)
                                    (video_id self) (url self) transcript]))))))"
proof (intro conjI impI)
  assume "extract_video_id u = Inl e"
  then show "load_from_url w u True sent = (Inl e, sent)"
    by (simp add: load_from_url_def YouTubeLoader_init_def)
next
  assume inc: "include_metadata self"
  obtain fetches where f: "snd (get_transcript w self sent) = sent @ fetches"
    and c: "fetches = [TranscriptFetch (video_id self) (Some [''en''])]
        \<or> fetches = [TranscriptFetch (video_id self) (Some [''en'']),
                      TranscriptFetch (video_id self) None]"
    using get_transcript_cases[of w self sent] by blast
  obtain tr where g: "get_transcript w self sent = (tr, sent @ fetches)"
    using f by (cases "get_transcript w self sent") simp
  have "case tr of
          Inl e' \<Rightarrow>
            YouTubeLoader_load w self sent =
              (Inl (ValueError (''Failed to load YouTube video: '' @ exc_str e')), self,
               sent @ fetches)
        | Inr transcript \<Rightarrow>
            (case YouTubeLoader_load w self sent of
               (r, self', sent') \<Rightarrow>
                 sent' = sent @ fetches @ [MetadataGet (oembed_url self)]
               \<and> (r = Inr () \<longrightarrow>
                    (\<exists>title author.
                       dict_get (metadata self') ''title'' (PyStr ''Unknown'') = Inr title
                     \<and> dict_get (metadata self') ''author_name'' (PyStr ''Unknown'') = Inr author
                     \<and> documents self' = documents self
                          @ [format_document (py_str title) (py_str author)
                               (video_id self) (url self) transcript])))"
  proof (cases tr)
    case (Inl e')
    with g show ?thesis by (simp add: YouTubeLoader_load_def)
  next
    case (Inr transcript)
    obtain d s2 where m: "get_video_metadata w self (sent @ fetches) = (d, s2)"
      by (cases "get_video_metadata w self (sent @ fetches)")
    have s2: "s2 = sent @ fetches @ [MetadataGet (oembed_url self)]"
      using get_video_metadata_sent[of w self "sent @ fetches"] m by simp
    show ?thesis
      using Inr g inc m s2
      by (auto simp: YouTubeLoader_load_def split: sum.splits)
  qed
  then show "\<exists>fetches. snd (get_transcript w self sent) = sent @ fetches
         \<and> (fetches = [TranscriptFetch (video_id self) (Some [''en''])]
            \<or> fetches = [TranscriptFetch (video_id self) (Some [''en'']),
                          TranscriptFetch (video_id self) None])
         \<and> (case fst (get_transcript w self sent) of
               Inl e' \<Rightarrow>
                 YouTubeLoader_load w self sent =
                   (Inl (ValueError (''Failed to load YouTube video: '' @ exc_str e')), self,
                    sent @ fetches)
             | Inr transcript \<Rightarrow>
                 (case YouTubeLoader_load w self sent of
                    (r, self', sent') \<Rightarrow>
                      sent' = sent @ fetches @ [MetadataGet (oembed_url self)]
                    \<and> (r = Inr () \<longrightarrow>
                         (\<exists>title author.
                            dict_get (metadata self') ''title'' (PyStr ''Unknown'') = Inr title
                          \<and> dict_get (metadata self') ''author_name'' (PyStr ''Unknown'') = Inr author
                          \<and> documents self' = documents self
                               @ [format_document (py_str title) (py_str author)
                                    (video_id self) (url self) transcript]))))"
    using g c by (intro exI[of _ fetches]) simp
qed

theorem load_fetches_transcript_then_metadata_witness:
  "load_from_url example_web ''https://example.com/video'' True [] =
     (Inl (ValueError ''Could not extract video ID from URL: https://example.com/video''), [])
   \<and> snd (snd (YouTubeLoader_load example_web example_loader [])) =
       [TranscriptFetch ''abc123'' (Some [''en'']), MetadataGet (oembed_url example_loader)]"
proof -
  have x: "extract_video_id ''https://example.com/video'' =
      Inl (ValueError ''Could not extract video ID from URL: https://example.com/video'')"
    by (simp add: extract_video_id_def patterns_def startswith_def)
  have inc: "include_metadata example_loader" by (simp add: example_loader_def)
  have g: "get_transcript example_web example_loader [] =
      (Inr ''hello world'', [TranscriptFetch ''abc123'' (Some [''en''])])"
    by (simp add: get_transcript_def example_web_def example_fetch_def example_loader_def)
  show ?thesis
    using load_fetches_transcript_then_metadata[of "''https://example.com/video''"
        "ValueError ''Could not extract video ID from URL: https://example.com/video''"
        example_web "[]" example_loader] x inc g
    by (auto split: prod.splits)
qed

text \<open>
  A load in which the metadata request raises: the load still succeeds, and the
  transcript was requested before the metadata, not after.
\<close>

theorem transcript_is_fetched_before_metadata:
  "fst (YouTubeLoader_load example_web_metadata_down example_loader []) = Inr ()
   \<and> snd (snd (YouTubeLoader_load example_web_metadata_down example_loader [])) =
       [TranscriptFetch ''abc123'' (Some [''en'']),
        MetadataGet ''https://www.youtube.com/oembed?url=https://www.youtube.com/watch?v=abc123&format=json'']"
  by (simp add: YouTubeLoader_load_def get_transcript_def get_video_metadata_def
      example_web_metadata_down_def example_fetch_def example_loader_def example_url_def
      placeholder_metadata_def dict_get_def oembed_url_def)

subsection \<open>Loads accumulate\<close>

lemma get_transcript_frame:
  "video_id self2 = video_id self \<Longrightarrow>
     fst (get_transcript w self2 sent2) = fst (get_transcript w self sent)"
  by (simp add: get_transcript_def split: sum.splits)

lemma get_video_metadata_frame:
  "url self2 = url self \<Longrightarrow>
     fst (get_video_metadata w self2 sent2) = fst (get_video_metadata w self sent)"
  by (simp add: get_video_metadata_def oembed_url_def split: sum.splits option.splits)

lemma YouTubeLoader_load_appends:
  assumes "YouTubeLoader_load w self sent = (Inr u, self', sent')"
  shows "\<exists>doc. documents self' = documents self @ [doc]
          \<and> url self' = url self \<and> video_id self' = video_id self
          \<and> include_metadata self' = include_metadata self
          \<and> (\<forall>self2 sent2. url self2 = url self \<and> video_id self2 = video_id self
                \<and> include_metadata self2 = include_metadata self \<longrightarrow>
                (\<exists>self2' sent2'. YouTubeLoader_load w self2 sent2 = (Inr u, self2', sent2')
                   \<and> documents self2' = documents self2 @ [doc]))"
proof -
  obtain tr s1 where g: "get_transcript w self sent = (tr, s1)"
    by (cases "get_transcript w self sent")
  from assms g obtain transcript where tr: "tr = Inr transcript"
    by (cases tr) (auto simp: YouTubeLoader_load_def)
  have g2: "fst (get_transcript w self2 sent2) = Inr transcript"
    if "video_id self2 = video_id self" for self2 sent2
    using get_transcript_frame[OF that, of w sent2 sent] g tr by simp
  show ?thesis
  proof (cases "include_metadata self")
    case False
    have "self' = self\<lparr>documents := documents self @ [transcript]\<rparr>"
      using assms g tr False by (simp add: YouTubeLoader_load_def)
    moreover have "\<exists>self2' sent2'. YouTubeLoader_load w self2 sent2 = (Inr u, self2', sent2')
                   \<and> documents self2' = documents self2 @ [transcript]"
      if h: "url self2 = url self \<and> video_id self2 = video_id self
                \<and> include_metadata self2 = include_metadata self" for self2 sent2
    proof -
      obtain s1' where "get_transcript w self2 sent2 = (Inr transcript, s1')"
        using g2[of self2 sent2] h by (cases "get_transcript w self2 sent2") simp
      then show ?thesis using h False by (simp add: YouTubeLoader_load_def)
    qed
    ultimately show ?thesis by (intro exI[of _ transcript]) simp
  next
    case True
    obtain d s2 where m: "get_video_metadata w self s1 = (d, s2)"
      by (cases "get_video_metadata w self s1")
    from assms g tr True m obtain title author where
      t: "dict_get d ''title'' (PyStr ''Unknown'') = Inr title"
      and a: "dict_get d ''author_name'' (PyStr ''Unknown'') = Inr author"
      and s: "self' = self\<lparr>metadata := d,
                documents := documents self
                  @ [format_document (py_str title) (py_str author)
                       (video_id self) (url self) transcript]\<rparr>"
      by (auto simp: YouTubeLoader_load_def split: sum.splits)
    let ?doc = "format_document (py_str title) (py_str author) (video_id self) (url self) transcript"
    have "\<exists>self2' sent2'. YouTubeLoader_load w self2 sent2 = (Inr u, self2', sent2')
                   \<and> documents self2' = documents self2 @ [?doc]"
      if h: "url self2 = url self \<and> video_id self2 = video_id self
                \<and> include_metadata self2 = include_metadata self" for self2 sent2
    proof -
      obtain s1' where g': "get_transcript w self2 sent2 = (Inr transcript, s1')"
        using g2[of self2 sent2] h by (cases "get_transcript w self2 sent2") simp
      obtain s2' where m': "get_video_metadata w self2 s1' = (d, s2')"
        using get_video_metadata_frame[of self2 self w s1' s1] h m
        by (cases "get_video_metadata w self2 s1'") simp
      show ?thesis using g' m' h True t a by (simp add: YouTubeLoader_load_def)
    qed
    then show ?thesis using s by (intro exI[of _ ?doc]) simp
  qed
qed

text \<open>
  A load that succeeds has read every path it was to read, and what it appended is
  what those reads returned; for \<open>YouTubeLoader\<close> it is the one document made from the
  transcript that was fetched and, if requested, the metadata that was fetched.
\<close>

lemma load_directory_files_success_reads:
  "load_directory_files fs root names self calls = (Inr u, self', calls') \<Longrightarrow>
   \<forall>p \<in> set (map (os_path_join root) (filter (\<lambda>n. endswith n ''.txt'') names)).
     \<exists>c. open_read fs p (encoding self) = Inr c"
proof (induction names arbitrary: self calls)
  case Nil
  then show ?case by simp
next
  case (Cons name names)
  show ?case
  proof (cases "endswith name ''.txt''")
    case False
    with Cons.prems have "load_directory_files fs root names self calls = (Inr u, self', calls')"
      by simp
    from Cons.IH[OF this] False show ?thesis by simp
  next
    case True
    show ?thesis
    proof (cases "open_read fs (os_path_join root name) (encoding self)")
      case (Inl e)
      with True Cons.prems show ?thesis by simp
    next
      case (Inr content)
      with True Cons.prems
      have "load_directory_files fs root names
              (self\<lparr>documents := documents self @ [content]\<rparr>)
              (calls @ [OpenRead (os_path_join root name)]) = (Inr u, self', calls')"
        by simp
      from Cons.IH[OF this] True Inr show ?thesis by simp
    qed
  qed
qed

lemma load_directory_walk_success_reads:
  "load_directory_walk fs triples self calls = (Inr u, self', calls') \<Longrightarrow>
   \<forall>p \<in> set (txt_paths triples). \<exists>c. open_read fs p (encoding self) = Inr c"
proof (induction triples arbitrary: self calls)
  case Nil
  then show ?case by (simp add: txt_paths_def)
next
  case (Cons triple rest)
  obtain root dirs names where t: "triple = (root, dirs, names)" by (cases triple)
  obtain r1 s1 c1 where one: "load_directory_files fs root names self calls = (r1, s1, c1)"
    by (cases "load_directory_files fs root names self calls")
  from Cons.prems t one obtain u1 where r1: "r1 = Inr u1"
    by (cases r1) auto
  have enc: "encoding s1 = encoding self"
    using load_directory_files_frame[OF one] by auto
  have a: "\<forall>p \<in> set (map (os_path_join root) (filter (\<lambda>n. endswith n ''.txt'') names)).
     \<exists>c. open_read fs p (encoding self) = Inr c"
    using load_directory_files_success_reads[of fs root names self calls u1 s1 c1] one r1 by simp
  have "load_directory_walk fs rest s1 c1 = (Inr u, self', calls')"
    using Cons.prems t one r1 by simp
  from Cons.IH[OF this] enc
  have b: "\<forall>p \<in> set (txt_paths rest). \<exists>c. open_read fs p (encoding self) = Inr c" by simp
  have "txt_paths (triple # rest) =
      map (os_path_join root) (filter (\<lambda>n. endswith n ''.txt'') names) @ txt_paths rest"
    by (simp add: txt_paths_def t)
  with a b show ?case by auto
qed

lemma TextFileLoader_load_success:
  assumes "TextFileLoader_load fs self calls = (Inr u, self', calls')"
  shows "\<exists>new. map (\<lambda>p. open_read fs p (encoding self)) (loaded_paths fs self) = map Inr new
           \<and> self' = self\<lparr>documents := documents self @ new\<rparr>"
proof (cases "os_path_isdir fs (path self)")
  case True
  let ?ps = "txt_paths (os_walk fs (path self))"
  let ?content = "\<lambda>p. case open_read fs p (encoding self) of Inr c \<Rightarrow> c | Inl e \<Rightarrow> []"
  have w: "load_directory_walk fs (os_walk fs (path self)) self
      (calls @ [IsDir (path self), Walk (path self)]) = (Inr u, self', calls')"
    using assms True by (simp add: TextFileLoader_load_def load_directory_def)
  have ok: "\<forall>p \<in> set ?ps. \<exists>c. open_read fs p (encoding self) = Inr c"
    using load_directory_walk_success_reads[OF w] .
  then have rd: "\<forall>p \<in> set ?ps. open_read fs p (encoding self) = Inr (?content p)"
    by auto
  have "load_directory_walk fs (os_walk fs (path self)) self
      (calls @ [IsDir (path self), Walk (path self)]) =
      (Inr (), self\<lparr>documents := documents self @ map ?content ?ps\<rparr>,
       (calls @ [IsDir (path self), Walk (path self)]) @ map OpenRead ?ps)"
    using rd by (rule load_directory_walk_readable)
  with w have s: "self' = self\<lparr>documents := documents self @ map ?content ?ps\<rparr>" by simp
  have "map (\<lambda>p. open_read fs p (encoding self)) ?ps = map Inr (map ?content ?ps)"
    using rd by simp
  then show ?thesis using s True by (intro exI[of _ "map ?content ?ps"]) (simp add: loaded_paths_def)
next
  case False
  with assms have f: "os_path_isfile fs (path self) \<and> endswith (path self) ''.txt''"
    by (auto simp: TextFileLoader_load_def split: if_splits)
  with assms False obtain content where
    "open_read fs (path self) (encoding self) = Inr content"
    "self' = self\<lparr>documents := documents self @ [content]\<rparr>"
    by (cases "open_read fs (path self) (encoding self)")
       (auto simp: TextFileLoader_load_def load_file_def)
  then show ?thesis using False by (intro exI[of _ "[content]"]) (simp add: loaded_paths_def)
qed

lemma YouTubeLoader_load_success:
  assumes "YouTubeLoader_load w self sent = (Inr u, self', sent')"
  shows "\<exists>td md title author doc.
      (api_fetch w (video_id self) (Some [''en'']) = Inr td
       \<or> (\<exists>e. api_fetch w (video_id self) (Some [''en'']) = Inl e)
          \<and> api_fetch w (video_id self) None = Inr td)
    \<and> (if include_metadata self
        then (metadata_fetch_fails w self \<and> md = placeholder_metadata
              \<or> (\<exists>resp. requests_get w (oembed_url self) = Inr resp
                    \<and> raise_for_status resp = None \<and> json resp = Inr md))
           \<and> dict_get md ''title'' (PyStr ''Unknown'') = Inr title
           \<and> dict_get md ''author_name'' (PyStr ''Unknown'') = Inr author
           \<and> doc = format_document (py_str title) (py_str author) (video_id self) (url self)
                     (py_join '' '' (map snippet_text (snippets td)))
        else doc = py_join '' '' (map snippet_text (snippets td)))
    \<and> documents self' = documents self @ [doc]"
proof -
  obtain tr s1 where g: "get_transcript w self sent = (tr, s1)"
    by (cases "get_transcript w self sent")
  from assms g obtain transcript where tr: "tr = Inr transcript"
    by (cases tr) (auto simp: YouTubeLoader_load_def)
  from g tr obtain td where
    td: "api_fetch w (video_id self) (Some [''en'']) = Inr td
       \<or> (\<exists>e. api_fetch w (video_id self) (Some [''en'']) = Inl e)
          \<and> api_fetch w (video_id self) None = Inr td"
    and tx: "transcript = py_join '' '' (map snippet_text (snippets td))"
    by (auto simp: get_transcript_def split: sum.splits)
  show ?thesis
  proof (cases "include_metadata self")
    case False
    have "documents self' = documents self @ [transcript]"
      using assms g tr False by (auto simp: YouTubeLoader_load_def)
    with td tx False show ?thesis by auto
  next
    case True
    obtain md s2 where m: "get_video_metadata w self s1 = (md, s2)"
      by (cases "get_video_metadata w self s1")
    have pin: "metadata_fetch_fails w self \<and> md = placeholder_metadata
              \<or> (\<exists>resp. requests_get w (oembed_url self) = Inr resp
                    \<and> raise_for_status resp = None \<and> json resp = Inr md)"
      using m by (auto simp: get_video_metadata_def metadata_fetch_fails_def
          split: sum.splits option.splits)
    from assms g tr True m obtain title author where
      t: "dict_get md ''title'' (PyStr ''Unknown'') = Inr title"
      and a: "dict_get md ''author_name'' (PyStr ''Unknown'') = Inr author"
      and d: "documents self' = documents self
                  @ [format_document (py_str title) (py_str author)
                       (video_id self) (url self) transcript]"
      by (auto simp: YouTubeLoader_load_def split: sum.splits)
    show ?thesis
      using td tx True pin t a d
      by (intro exI[of _ td] exI[of _ md] exI[of _ title] exI[of _ author]
          exI[of _ "format_document (py_str title) (py_str author) (video_id self) (url self)
                     (py_join '' '' (map snippet_text (snippets td)))"]) simp
  qed
qed

text \<open>
  Claim C10. Both loaders accumulate: a successful load appends the documents it loaded
  to \<^verbatim>\<open>documents\<close> and leaves the earlier entries as they were, so two calls of
  \<open>load_documents\<close> in a row on one loader (the file system and the network answering
  the same way both times) return, after what was there before, every loaded document
  twice. For \<open>TextFileLoader\<close> the loaded documents are the texts read from the paths of
  the load (the one file, or the \<^verbatim>\<open>.txt\<close> files of the directory walk), in order, and
  the second call returns them followed by the same texts again. For \<open>YouTubeLoader\<close>
  the loaded document is the transcript that was fetched (the snippets' texts joined by
  spaces), under the header made from the fetched or placeholder metadata if metadata
  is requested, and the second call returns it twice.
\<close>

theorem loads_accumulate_documents:
  "(TextFileLoader_load_documents fs l calls = (Inr docs1, l1, calls1)
    \<and> TextFileLoader_load_documents fs l1 calls1 = (Inr docs2, l2, calls2) \<longrightarrow>
      (\<exists>new. map (\<lambda>p. open_read fs p (encoding l)) (loaded_paths fs l) = map Inr new
         \<and> docs1 = documents l @ new \<and> docs2 = documents l @ new @ new))
 \<and> (YouTubeLoader_load_documents w y sent = (Inr ydocs1, y1, sent1)
    \<and> YouTubeLoader_load_documents w y1 sent1 = (Inr ydocs2, y2, sent2) \<longrightarrow>
      (\<exists>td md title author doc.
          (api_fetch w (video_id y) (Some [''en'']) = Inr td
           \<or> (\<exists>e. api_fetch w (video_id y) (Some [''en'']) = Inl e)
              \<and> api_fetch w (video_id y) None = Inr td)
        \<and> (if include_metadata y
            then (metadata_fetch_fails w y \<and> md = placeholder_metadata
                  \<or> (\<exists>resp. requests_get w (oembed_url y) = Inr resp
                        \<and> raise_for_status resp = None \<and> json resp = Inr md))
               \<and> dict_get md ''title'' (PyStr ''Unknown'') = Inr title
               \<and> dict_get md ''author_name'' (PyStr ''Unknown'') = Inr author
               \<and> doc = format_document (py_str title) (py_str author) (video_id y) (url y)
                         (py_join '' '' (map snippet_text (snippets td)))
            else doc = py_join '' '' (map snippet_text (snippets td)))
        \<and> ydocs1 = documents y @ [doc] \<and> ydocs2 = documents y @ [doc, doc]))"
proof (intro conjI impI)
  assume h: "TextFileLoader_load_documents fs l calls = (Inr docs1, l1, calls1)
    \<and> TextFileLoader_load_documents fs l1 calls1 = (Inr docs2, l2, calls2)"
  then have a: "TextFileLoader_load fs l calls = (Inr (), l1, calls1)" and d1: "docs1 = documents l1"
    by (auto simp: TextFileLoader_load_documents_def split: prod.splits sum.splits)
  from h have b: "TextFileLoader_load fs l1 calls1 = (Inr (), l2, calls2)" and d2: "docs2 = documents l2"
    by (auto simp: TextFileLoader_load_documents_def split: prod.splits sum.splits)
  from TextFileLoader_load_success[OF a] obtain new where
    rd: "map (\<lambda>p. open_read fs p (encoding l)) (loaded_paths fs l) = map Inr new"
    and l1: "l1 = l\<lparr>documents := documents l @ new\<rparr>"
    by blast
  from TextFileLoader_load_success[OF b] obtain new2 where
    rd2: "map (\<lambda>p. open_read fs p (encoding l1)) (loaded_paths fs l1) = map Inr new2"
    and l2: "l2 = l1\<lparr>documents := documents l1 @ new2\<rparr>"
    by blast
  have "loaded_paths fs l1 = loaded_paths fs l" "encoding l1 = encoding l"
    using l1 by (simp_all add: loaded_paths_def)
  with rd rd2 have "map Inr new2 = (map Inr new :: (py_error + string) list)" by simp
  then have "new2 = new" by (simp add: inj_map_eq_map)
  then show "\<exists>new. map (\<lambda>p. open_read fs p (encoding l)) (loaded_paths fs l) = map Inr new
         \<and> docs1 = documents l @ new \<and> docs2 = documents l @ new @ new"
    using rd l1 l2 d1 d2 by (intro exI[of _ new]) simp
next
  assume h: "YouTubeLoader_load_documents w y sent = (Inr ydocs1, y1, sent1)
    \<and> YouTubeLoader_load_documents w y1 sent1 = (Inr ydocs2, y2, sent2)"
  then have a: "YouTubeLoader_load w y sent = (Inr (), y1, sent1)" and d1: "ydocs1 = documents y1"
    by (auto simp: YouTubeLoader_load_documents_def split: prod.splits sum.splits)
  from h have b: "YouTubeLoader_load w y1 sent1 = (Inr (), y2, sent2)" and d2: "ydocs2 = documents y2"
    by (auto simp: YouTubeLoader_load_documents_def split: prod.splits sum.splits)
  from YouTubeLoader_load_success[OF a] obtain td md title author doc where
    pin: "(api_fetch w (video_id y) (Some [''en'']) = Inr td
           \<or> (\<exists>e. api_fetch w (video_id y) (Some [''en'']) = Inl e)
              \<and> api_fetch w (video_id y) None = Inr td)
        \<and> (if include_metadata y
            then (metadata_fetch_fails w y \<and> md = placeholder_metadata
                  \<or> (\<exists>resp. requests_get w (oembed_url y) = Inr resp
                        \<and> raise_for_status resp = None \<and> json resp = Inr md))
               \<and> dict_get md ''title'' (PyStr ''Unknown'') = Inr title
               \<and> dict_get md ''author_name'' (PyStr ''Unknown'') = Inr author
               \<and> doc = format_document (py_str title) (py_str author) (video_id y) (url y)
                         (py_join '' '' (map snippet_text (snippets td)))
            else doc = py_join '' '' (map snippet_text (snippets td)))"
    and y1: "documents y1 = documents y @ [doc]"
    by blast
  from YouTubeLoader_load_appends[OF a] obtain doc' where
    y1': "documents y1 = documents y @ [doc']"
    and same: "url y1 = url y \<and> video_id y1 = video_id y \<and> include_metadata y1 = include_metadata y"
    and f: "\<forall>self2 sent2. url self2 = url y \<and> video_id self2 = video_id y
                \<and> include_metadata self2 = include_metadata y \<longrightarrow>
                (\<exists>self2' sent2'. YouTubeLoader_load w self2 sent2 = (Inr (), self2', sent2')
                   \<and> documents self2' = documents self2 @ [doc'])"
    by blast
  have dd: "doc' = doc" using y1 y1' by simp
  from f same obtain y2' s2' where "YouTubeLoader_load w y1 sent1 = (Inr (), y2', s2')"
    and "documents y2' = documents y1 @ [doc']" by blast
  with b have "documents y2 = documents y1 @ [doc]" using dd by simp
  then have e: "ydocs1 = documents y @ [doc] \<and> ydocs2 = documents y @ [doc, doc]"
    using y1 d1 d2 by simp
  show "\<exists>td md title author doc.
          (api_fetch w (video_id y) (Some [''en'']) = Inr td
           \<or> (\<exists>e. api_fetch w (video_id y) (Some [''en'']) = Inl e)
              \<and> api_fetch w (video_id y) None = Inr td)
        \<and> (if include_metadata y
            then (metadata_fetch_fails w y \<and> md = placeholder_metadata
                  \<or> (\<exists>resp. requests_get w (oembed_url y) = Inr resp
                        \<and> raise_for_status resp = None \<and> json resp = Inr md))
               \<and> dict_get md ''title'' (PyStr ''Unknown'') = Inr title
               \<and> dict_get md ''author_name'' (PyStr ''Unknown'') = Inr author
               \<and> doc = format_document (py_str title) (py_str author) (video_id y) (url y)
                         (py_join '' '' (map snippet_text (snippets td)))
            else doc = py_join '' '' (map snippet_text (snippets td)))
        \<and> ydocs1 = documents y @ [doc] \<and> ydocs2 = documents y @ [doc, doc]"
    using pin e
    by (intro exI[of _ td] exI[of _ md] exI[of _ title] exI[of _ author] exI[of _ doc]) blast
qed

theorem loads_accumulate_documents_witness:
  "fst (TextFileLoader_load_documents example_fs (TextFileLoader_init ''data'' ''utf-8'') []) =
     Inr [''alpha'', ''beta'', ''gamma'']
   \<and> fst (TextFileLoader_load_documents example_fs
        (fst (snd (TextFileLoader_load_documents example_fs (TextFileLoader_init ''data'' ''utf-8'') [])))
        (snd (snd (TextFileLoader_load_documents example_fs (TextFileLoader_init ''data'' ''utf-8'') []))))
      = Inr [''alpha'', ''beta'', ''gamma'', ''alpha'', ''beta'', ''gamma'']
   \<and> fst (YouTubeLoader_load_documents example_web example_loader []) =
       Inr [format_document ''A talk'' ''Ann'' ''abc123'' example_url ''hello world'']
   \<and> fst (YouTubeLoader_load_documents example_web
        (fst (snd (YouTubeLoader_load_documents example_web example_loader [])))
        (snd (snd (YouTubeLoader_load_documents example_web example_loader [])))) =
       Inr [format_document ''A talk'' ''Ann'' ''abc123'' example_url ''hello world'',
            format_document ''A talk'' ''Ann'' ''abc123'' example_url ''hello world'']"
proof -
  let ?l = "TextFileLoader_init ''data'' ''utf-8''"
  let ?abc = "[''alpha'', ''beta'', ''gamma'']"
  obtain l1 c1 where a: "TextFileLoader_load_documents example_fs ?l [] = (Inr ?abc, l1, c1)"
    by (simp add: TextFileLoader_load_documents_def TextFileLoader_load_def load_directory_def
        TextFileLoader_init_def example_fs_def example_files_def endswith_def os_path_join_def)
  have l1: "path l1 = ''data'' \<and> encoding l1 = ''utf-8''"
    using a
    by (auto simp add: TextFileLoader_load_documents_def TextFileLoader_load_def load_directory_def
        TextFileLoader_init_def example_fs_def example_files_def endswith_def os_path_join_def)
  obtain d2 l2 c2 where b: "TextFileLoader_load_documents example_fs l1 c1 = (Inr d2, l2, c2)"
    using l1
    by (simp add: TextFileLoader_load_documents_def TextFileLoader_load_def load_directory_def
        example_fs_def example_files_def endswith_def os_path_join_def)
  let ?doc = "format_document ''A talk'' ''Ann'' ''abc123'' example_url ''hello world''"
  obtain y1 s1 where ya: "YouTubeLoader_load_documents example_web example_loader [] = (Inr [?doc], y1, s1)"
    by (simp add: YouTubeLoader_load_documents_def YouTubeLoader_load_def get_transcript_def
        get_video_metadata_def example_web_def example_fetch_def example_loader_def dict_get_def)
  have y1: "video_id y1 = ''abc123'' \<and> url y1 = example_url \<and> include_metadata y1"
    using ya
    by (auto simp add: YouTubeLoader_load_documents_def YouTubeLoader_load_def get_transcript_def
        get_video_metadata_def example_web_def example_fetch_def example_loader_def dict_get_def)
  obtain yd2 y2 s2 where yb: "YouTubeLoader_load_documents example_web y1 s1 = (Inr yd2, y2, s2)"
    using y1
    by (simp add: YouTubeLoader_load_documents_def YouTubeLoader_load_def get_transcript_def
        get_video_metadata_def example_web_def example_fetch_def dict_get_def)
  have "(\<exists>new. ?abc = documents ?l @ new \<and> d2 = documents ?l @ new @ new)
      \<and> (\<exists>doc. [?doc] = documents example_loader @ [doc] \<and> yd2 = documents example_loader @ [doc, doc])"
    using loads_accumulate_documents[of example_fs ?l "[]" ?abc l1 c1 d2 l2 c2
        example_web example_loader "[]" "[?doc]" y1 s1 yd2 y2 s2] a b ya yb
    by blast
  then have "d2 = ?abc @ ?abc \<and> yd2 = [?doc, ?doc]"
    by (auto simp: TextFileLoader_init_def example_loader_def)
  then show ?thesis using a b ya yb by simp
qed

end
